theory Spec2Isabelle
  imports Complex_Main "HOL-Library.Word"
begin

unbundle bit_operations_syntax

section \<open>JavaScript numbers\<close>

text \<open>
  The structure pipeline (MapDNA.js, NeuralMap.buildNetFromAudio and the galaxy builders of
  NeuralGalaxy.js) computes on IEEE doubles and stores into typed arrays. A number is
  modelled as a finite real, one of the two infinities, or NaN. The two zeros are one
  value; NaN and the infinities propagate as in ECMAScript, and every comparison with NaN
  is false. The arithmetic of the node attributes (amp, freq, position, hue) is exact real
  arithmetic; the node count, whose value decides the shape of the whole structure, is
  computed with the rounding of the next section.
\<close>

datatype jsnum = Num real | PInf | NInf | NaN

instantiation jsnum :: "{plus, minus, uminus, times, inverse}"
begin

fun uminus_jsnum :: "jsnum \<Rightarrow> jsnum" where
  "uminus_jsnum (Num a) = Num (- a)"
| "uminus_jsnum PInf = NInf"
| "uminus_jsnum NInf = PInf"
| "uminus_jsnum NaN = NaN"

fun plus_jsnum :: "jsnum \<Rightarrow> jsnum \<Rightarrow> jsnum" where
  "plus_jsnum (Num a) (Num b) = Num (a + b)"
| "plus_jsnum NaN _ = NaN"
| "plus_jsnum _ NaN = NaN"
| "plus_jsnum PInf NInf = NaN"
| "plus_jsnum NInf PInf = NaN"
| "plus_jsnum PInf _ = PInf"
| "plus_jsnum _ PInf = PInf"
| "plus_jsnum NInf _ = NInf"
| "plus_jsnum _ NInf = NInf"

definition minus_jsnum :: "jsnum \<Rightarrow> jsnum \<Rightarrow> jsnum" where
  "minus_jsnum a b = a + (- b)"

fun times_jsnum :: "jsnum \<Rightarrow> jsnum \<Rightarrow> jsnum" where
  "times_jsnum (Num a) (Num b) = Num (a * b)"
| "times_jsnum NaN _ = NaN"
| "times_jsnum _ NaN = NaN"
| "times_jsnum PInf (Num b) = (if b = 0 then NaN else if 0 < b then PInf else NInf)"
| "times_jsnum NInf (Num b) = (if b = 0 then NaN else if 0 < b then NInf else PInf)"
| "times_jsnum (Num a) PInf = (if a = 0 then NaN else if 0 < a then PInf else NInf)"
| "times_jsnum (Num a) NInf = (if a = 0 then NaN else if 0 < a then NInf else PInf)"
| "times_jsnum PInf PInf = PInf"
| "times_jsnum PInf NInf = NInf"
| "times_jsnum NInf PInf = NInf"
| "times_jsnum NInf NInf = PInf"

fun divide_jsnum :: "jsnum \<Rightarrow> jsnum \<Rightarrow> jsnum" where
  "divide_jsnum (Num a) (Num b) =
     (if b = 0 then (if a = 0 then NaN else if 0 < a then PInf else NInf)
      else Num (a / b))"
| "divide_jsnum NaN _ = NaN"
| "divide_jsnum _ NaN = NaN"
| "divide_jsnum (Num a) _ = Num 0"
| "divide_jsnum PInf (Num b) = (if 0 \<le> b then PInf else NInf)"
| "divide_jsnum NInf (Num b) = (if 0 \<le> b then NInf else PInf)"
| "divide_jsnum _ _ = NaN"

definition inverse_jsnum :: "jsnum \<Rightarrow> jsnum" where
  "inverse_jsnum a = divide (Num 1) a"

instance ..

end

text \<open>The relational operators \<open><\<close>, \<open>>\<close>, \<open>>=\<close> of the language.\<close>

fun js_lt :: "jsnum \<Rightarrow> jsnum \<Rightarrow> bool" where
  "js_lt (Num a) (Num b) = (a < b)"
| "js_lt NaN _ = False"
| "js_lt _ NaN = False"
| "js_lt _ NInf = False"
| "js_lt PInf _ = False"
| "js_lt _ _ = True"

definition js_gt :: "jsnum \<Rightarrow> jsnum \<Rightarrow> bool" where
  "js_gt a b = js_lt b a"

fun js_ge :: "jsnum \<Rightarrow> jsnum \<Rightarrow> bool" where
  "js_ge NaN _ = False"
| "js_ge _ NaN = False"
| "js_ge a b = (\<not> js_lt a b)"

text \<open>The remainder operator \<open>%\<close>: the result has the sign of the dividend.\<close>

fun js_rem :: "jsnum \<Rightarrow> jsnum \<Rightarrow> jsnum" where
  "js_rem (Num a) (Num b) =
     (if b = 0 then NaN
      else Num (sgn a * (\<bar>a\<bar> - \<bar>b\<bar> * of_int \<lfloor>\<bar>a\<bar> / \<bar>b\<bar>\<rfloor>)))"
| "js_rem NaN _ = NaN"
| "js_rem _ NaN = NaN"
| "js_rem (Num a) _ = Num a"
| "js_rem _ _ = NaN"

text \<open>The functions of the \<open>Math\<close> object that the sources call.\<close>

fun Math_abs :: "jsnum \<Rightarrow> jsnum" where
  "Math_abs (Num a) = Num \<bar>a\<bar>"
| "Math_abs PInf = PInf"
| "Math_abs NInf = PInf"
| "Math_abs NaN = NaN"

fun Math_max :: "jsnum \<Rightarrow> jsnum \<Rightarrow> jsnum" where
  "Math_max NaN _ = NaN"
| "Math_max _ NaN = NaN"
| "Math_max a b = (if js_lt a b then b else a)"

fun Math_min :: "jsnum \<Rightarrow> jsnum \<Rightarrow> jsnum" where
  "Math_min NaN _ = NaN"
| "Math_min _ NaN = NaN"
| "Math_min a b = (if js_lt b a then b else a)"

fun Math_sin :: "jsnum \<Rightarrow> jsnum" where
  "Math_sin (Num a) = Num (sin a)"
| "Math_sin _ = NaN"

fun Math_cos :: "jsnum \<Rightarrow> jsnum" where
  "Math_cos (Num a) = Num (cos a)"
| "Math_cos _ = NaN"

fun Math_sqrt :: "jsnum \<Rightarrow> jsnum" where
  "Math_sqrt (Num a) = (if a < 0 then NaN else Num (sqrt a))"
| "Math_sqrt PInf = PInf"
| "Math_sqrt _ = NaN"

section \<open>Rounding to double precision\<close>

text \<open>
  The result of an arithmetic operation on doubles is the exact result rounded to the
  nearest double, ties to the even significand. \<open>binade x\<close> is the exponent of \<open>x\<close>
  (at least \<open>-1022\<close>, the exponent of the subnormal numbers), \<open>ulp x\<close> the distance between
  neighbouring doubles of that exponent (53 significant bits), and \<open>fl x\<close> the multiple of
  \<open>ulp x\<close> nearest to \<open>x\<close>. \<open>fl\<close> has no largest value: overflow to an infinity is
  written out where it can happen.
\<close>

definition round_even :: "real \<Rightarrow> int" where
  "round_even a =
     (let f = \<lfloor>a\<rfloor>; r = a - of_int f
      in if r < 1 / 2 then f else if 1 / 2 < r then f + 1
         else if even f then f else f + 1)"

definition binade :: "real \<Rightarrow> int" where
  "binade x = max (- 1022) \<lfloor>log 2 \<bar>x\<bar>\<rfloor>"

definition ulp :: "real \<Rightarrow> real" where
  "ulp x = power_int 2 (binade x - 52)"

definition fl :: "real \<Rightarrow> real" where
  "fl x = (if x = 0 then 0 else of_int (round_even (x / ulp x)) * ulp x)"

section \<open>The seeded random stream\<close>

text \<open>
  \<open>seededRandom(seed)\<close> folds the character codes of the seed into a 32-bit state
  (\<open>h = (Math.imul(31, h) + seed.charCodeAt(i)) | 0\<close>) and returns a closure over it.
  The closure is modelled by the state it captures; a call of the closure is \<open>rand\<close>,
  which returns the draw and the new state
  (\<open>h = (Math.imul(1664525, h) + 1013904223) | 0; return (h >>> 0) / 4294967296\<close>).
\<close>

definition seededRandom :: "string \<Rightarrow> 32 word" where
  "seededRandom seed = foldl (\<lambda>h c. 31 * h + of_nat (of_char c)) 0 seed"

definition next_state :: "32 word \<Rightarrow> 32 word" where
  "next_state h = 1664525 * h + 1013904223"

definition unit_of :: "32 word \<Rightarrow> real" where
  "unit_of h = real (unat h) / 4294967296"

definition rand :: "32 word \<Rightarrow> jsnum \<times> 32 word" where
  "rand h = (let h' = next_state h in (Num (unit_of h'), h'))"

section \<open>The headless structure generator (MapDNA.js)\<close>

record Vector3 =
  vx :: jsnum
  vy :: jsnum
  vz :: jsnum

text \<open>\<open>Vector3.distanceTo\<close> of three.js: the square root of the sum of the squared
  coordinate differences.\<close>

definition distanceTo :: "Vector3 \<Rightarrow> Vector3 \<Rightarrow> jsnum" where
  "distanceTo a b =
     (let dx = vx a - vx b; dy = vy a - vy b; dz = vz a - vz b
      in Math_sqrt (dx * dx + dy * dy + dz * dz))"

record node =
  node_id :: nat
  position :: Vector3
  freq :: jsnum
  amp :: jsnum
  hue :: jsnum
  connections :: "nat list"

text \<open>
  An \<open>AudioBuffer\<close>: the sample data of each channel, the duration in seconds (a finite
  double, the frame count over the sample rate) and the sample rate.
  \<open>getChannelData(0)\<close> of a buffer without channels raises; the structure generators
  then return no value.
\<close>

record AudioBuffer =
  channelData :: "jsnum list list"
  duration :: real
  sampleRate :: real

definition getChannelData :: "AudioBuffer \<Rightarrow> nat \<Rightarrow> jsnum list option" where
  "getChannelData buffer c =
     (if c < length (channelData buffer) then Some (channelData buffer ! c) else None)"

text \<open>\<open>maxAbs\<close> of MapDNA.js: a loop that keeps \<open>m\<close> unless \<open>Math.abs(arr[i]) > m\<close>.\<close>

fun maxAbs_from :: "jsnum \<Rightarrow> jsnum list \<Rightarrow> jsnum" where
  "maxAbs_from m [] = m"
| "maxAbs_from m (a # arr) =
     (let v = Math_abs a in maxAbs_from (if js_gt v m then v else m) arr)"

definition maxAbs :: "jsnum list \<Rightarrow> jsnum" where
  "maxAbs arr = maxAbs_from (Num 0) arr"

text \<open>\<open>extractDominantFrequency\<close>: the number of sign changes between consecutive
  samples, divided by the number of samples.\<close>

fun zeroCrossings :: "jsnum list \<Rightarrow> nat" where
  "zeroCrossings (a # b # data) =
     (if js_ge a (Num 0) \<noteq> js_ge b (Num 0) then 1 else 0) + zeroCrossings (b # data)"
| "zeroCrossings _ = 0"

definition extractDominantFrequency :: "jsnum list \<Rightarrow> jsnum" where
  "extractDominantFrequency data = Num (real (zeroCrossings data)) / Num (real (length data))"

text \<open>\<open>data.subarray(start, end)\<close> and \<open>data.slice(start, end)\<close> for non-negative
  bounds: both bounds are clamped to the length, and the result is empty when the start
  is not before the end.\<close>

definition subarray :: "'a list \<Rightarrow> nat \<Rightarrow> nat \<Rightarrow> 'a list" where
  "subarray data start end' = drop start (take end' data)"

text \<open>The node count \<open>Math.max(50, Math.min(200, Math.floor(duration * 10)))\<close>: the product
  is rounded to a double before \<open>Math.floor\<close> is applied. A product beyond the largest
  double is the infinity on the machine and a large finite number here; \<open>Math.min\<close> maps
  both to 200.\<close>

definition nodeCount_of :: "real \<Rightarrow> nat" where
  "nodeCount_of d = nat (max 50 (min 200 \<lfloor>fl (d * 10)\<rfloor>))"

definition step_of :: "nat \<Rightarrow> nat \<Rightarrow> nat" where
  "step_of len nodeCount = max 1 (len div nodeCount)"

text \<open>The slice of node \<open>i\<close>: \<open>data.subarray(i * step, Math.min(data.length, (i + 1) * step))\<close>.\<close>

definition slice_of :: "jsnum list \<Rightarrow> nat \<Rightarrow> nat \<Rightarrow> jsnum list" where
  "slice_of data step i = subarray data (i * step) (min (length data) ((i + 1) * step))"

text \<open>The body of the node loop: the node built at index \<open>i\<close> and the random state after
  its two draws (one for \<open>x\<close>, then one for \<open>z\<close>).\<close>

definition make_node :: "jsnum list \<Rightarrow> nat \<Rightarrow> nat \<Rightarrow> nat \<Rightarrow> 32 word \<Rightarrow> node \<times> 32 word" where
  "make_node data nodeCount step i h =
     (let slice = slice_of data step i;
          amp = maxAbs slice;
          freq = extractDominantFrequency slice;
          (r1, h1) = rand h;
          x = (Num (real i) / Num (real nodeCount) - Num 0.5) * Num 40 + (r1 - Num 0.5) * Num 10;
          y = (amp - Num 0.5) * Num 80 + Math_sin (freq * Num 0.1) * Num 20;
          (r2, h2) = rand h1;
          z = (r2 - Num 0.5) * Num 30 + Math_cos (Num (real i) * Num 0.001) * Num 10;
          hue = js_rem (Num (real i) / Num (real nodeCount) + amp) (Num 1)
      in (\<lparr>node_id = i, position = \<lparr>vx = x, vy = y, vz = z\<rparr>,
           freq = freq, amp = amp, hue = hue, connections = []\<rparr>, h2))"

fun build_nodes :: "jsnum list \<Rightarrow> nat \<Rightarrow> nat \<Rightarrow> nat list \<Rightarrow> 32 word \<Rightarrow> node list \<times> 32 word" where
  "build_nodes data nodeCount step [] h = ([], h)"
| "build_nodes data nodeCount step (i # is) h =
     (let (nd, h1) = make_node data nodeCount step i h;
          (nds, h2) = build_nodes data nodeCount step is h1
      in (nd # nds, h2))"

definition maxDist :: jsnum where
  "maxDist = Num 8"

text \<open>The inner connection loop for node \<open>i\<close>: the targets pushed to
  \<open>nodes[i].connections\<close>, in order. A draw is consumed only when the distance test
  passes (\<open>&&\<close> short-circuits).\<close>

fun connect_row :: "node list \<Rightarrow> nat \<Rightarrow> nat list \<Rightarrow> 32 word \<Rightarrow> nat list \<times> 32 word" where
  "connect_row nodes i [] h = ([], h)"
| "connect_row nodes i (j # js) h =
     (if i = j then connect_row nodes i js h
      else if js_lt (distanceTo (position (nodes ! i)) (position (nodes ! j))) maxDist
      then (let (r, h1) = rand h;
                (cs, h2) = connect_row nodes i js h1
            in if js_lt r (Num 0.7) then (j # cs, h2) else (cs, h2))
      else connect_row nodes i js h)"

fun connect_all :: "node list \<Rightarrow> nat list \<Rightarrow> 32 word \<Rightarrow> node list \<times> 32 word" where
  "connect_all nodes [] h = (nodes, h)"
| "connect_all nodes (i # is) h =
     (let (cs, h1) = connect_row nodes i [0..<length nodes] h
      in connect_all (nodes[i := (nodes ! i)\<lparr>connections := connections (nodes ! i) @ cs\<rparr>]) is h1)"

definition buildMapData :: "jsnum list \<Rightarrow> real \<Rightarrow> string \<Rightarrow> node list" where
  "buildMapData data d audioHash =
     (let h0 = seededRandom (if audioHash = [] then ''seed'' else audioHash);
          nodeCount = nodeCount_of d;
          step = step_of (length data) nodeCount;
          (nodes, h1) = build_nodes data nodeCount step [0..<nodeCount] h0
      in fst (connect_all nodes [0..<nodeCount] h1))"

definition buildMapDataFromAudio :: "AudioBuffer \<Rightarrow> string \<Rightarrow> node list option" where
  "buildMapDataFromAudio audioBuffer audioHash =
     (case getChannelData audioBuffer 0 of
        None \<Rightarrow> None
      | Some data \<Rightarrow> Some (buildMapData data (duration audioBuffer) audioHash))"

section \<open>The NeuralMap mode (modes/NeuralMap.js)\<close>

text \<open>
  A node of the mode is a mesh: a position and its \<open>userData\<close>. The geometry and the
  material of the mesh (the rendered sphere and its colour) are inputs of the renderer and
  are not modelled. A connection records the indices of the two meshes it joins.
\<close>

record UserData =
  ud_id :: nat
  ud_amp :: jsnum
  ud_freq :: jsnum
  ud_hue :: jsnum
  ud_connections :: "nat list"
  baseY :: jsnum

record Mesh =
  mesh_position :: Vector3
  userData :: UserData

record NeuralMap =
  nm_nodes :: "Mesh list"
  nm_connections :: "(nat \<times> nat) list"
  audioHash :: string

definition clearNetwork :: "NeuralMap \<Rightarrow> NeuralMap" where
  "clearNetwork this = this\<lparr>nm_nodes := [], nm_connections := []\<rparr>"

text \<open>\<open>NeuralMap.maxAbs\<close>: \<open>arr.reduce((m, v) => Math.max(m, Math.abs(v)), 0)\<close>.\<close>

definition NeuralMap_maxAbs :: "jsnum list \<Rightarrow> jsnum" where
  "NeuralMap_maxAbs arr = foldl (\<lambda>m v. Math_max m (Math_abs v)) (Num 0) arr"

text \<open>The body of the node loop of \<open>buildNetFromAudio\<close>; the slice is
  \<open>data.slice(i * step, (i + 1) * step)\<close>.\<close>

definition make_mesh :: "jsnum list \<Rightarrow> nat \<Rightarrow> nat \<Rightarrow> nat \<Rightarrow> 32 word \<Rightarrow> Mesh \<times> 32 word" where
  "make_mesh data nodeCount step i h =
     (let slice = subarray data (i * step) ((i + 1) * step);
          amp = NeuralMap_maxAbs slice;
          freq = extractDominantFrequency slice;
          (r1, h1) = rand h;
          x = (Num (real i) / Num (real nodeCount) - Num 0.5) * Num 40 + (r1 - Num 0.5) * Num 10;
          y = (amp - Num 0.5) * Num 80 + Math_sin (freq * Num 0.1) * Num 20;
          (r2, h2) = rand h1;
          z = (r2 - Num 0.5) * Num 30 + Math_cos (Num (real i) * Num 0.001) * Num 10;
          hue = js_rem (Num (real i) / Num (real nodeCount) + amp) (Num 1)
      in (\<lparr>mesh_position = \<lparr>vx = x, vy = y, vz = z\<rparr>,
           userData = \<lparr>ud_id = i, ud_amp = amp, ud_freq = freq, ud_hue = hue,
                       ud_connections = [], baseY = y\<rparr>\<rparr>, h2))"

fun push_meshes :: "jsnum list \<Rightarrow> nat \<Rightarrow> nat \<Rightarrow> nat list \<Rightarrow> Mesh list \<Rightarrow> 32 word \<Rightarrow> Mesh list \<times> 32 word" where
  "push_meshes data nodeCount step [] nodes h = (nodes, h)"
| "push_meshes data nodeCount step (i # is) nodes h =
     (let (node, h1) = make_mesh data nodeCount step i h
      in push_meshes data nodeCount step is (nodes @ [node]) h1)"

text \<open>
  The two nested \<open>forEach\<close> loops over \<open>this.nodes\<close>. The inner loop visits every mesh
  \<open>b\<close> with its index \<open>j\<close> and returns the targets pushed to \<open>a.userData.connections\<close>
  and the created lines; the outer loop visits every mesh \<open>a\<close> with its index \<open>i\<close>.
  The loops change no position, so the inner loop reads the meshes as they were when the
  loops started.
\<close>

fun forEach_inner :: "Mesh \<Rightarrow> nat \<Rightarrow> Mesh list \<Rightarrow> nat \<Rightarrow> 32 word \<Rightarrow> nat list \<times> (nat \<times> nat) list \<times> 32 word" where
  "forEach_inner a i [] j h = ([], [], h)"
| "forEach_inner a i (b # bs) j h =
     (if i = j then forEach_inner a i bs (Suc j) h
      else if js_lt (distanceTo (mesh_position a) (mesh_position b)) maxDist
      then (let (r, h1) = rand h;
                (cs, ls, h2) = forEach_inner a i bs (Suc j) h1
            in if js_lt r (Num 0.7) then (j # cs, (i, j) # ls, h2) else (cs, ls, h2))
      else forEach_inner a i bs (Suc j) h)"

fun forEach_outer :: "Mesh list \<Rightarrow> Mesh list \<Rightarrow> nat \<Rightarrow> 32 word \<Rightarrow> Mesh list \<times> (nat \<times> nat) list \<times> 32 word" where
  "forEach_outer nodes [] i h = ([], [], h)"
| "forEach_outer nodes (a # as) i h =
     (let (cs, ls, h1) = forEach_inner a i nodes 0 h;
          a' = a\<lparr>userData := (userData a)\<lparr>ud_connections := ud_connections (userData a) @ cs\<rparr>\<rparr>;
          (as', ls', h2) = forEach_outer nodes as (Suc i) h1
      in (a' # as', ls @ ls', h2))"

definition buildNet :: "NeuralMap \<Rightarrow> jsnum list \<Rightarrow> real \<Rightarrow> NeuralMap" where
  "buildNet this data d =
     (let h0 = seededRandom (if audioHash this = [] then ''seed'' else audioHash this);
          nodeCount = nodeCount_of d;
          step = step_of (length data) nodeCount;
          (nodes, h1) = push_meshes data nodeCount step [0..<nodeCount] (nm_nodes this) h0;
          (nodes', lines, h2) = forEach_outer nodes nodes 0 h1
      in this\<lparr>nm_nodes := nodes', nm_connections := nm_connections this @ lines\<rparr>)"

definition buildNetFromAudio :: "NeuralMap \<Rightarrow> AudioBuffer \<Rightarrow> NeuralMap option" where
  "buildNetFromAudio this buffer =
     (case getChannelData buffer 0 of
        None \<Rightarrow> None
      | Some data \<Rightarrow> Some (buildNet this data (duration buffer)))"

definition exportNetwork :: "NeuralMap \<Rightarrow> node list" where
  "exportNetwork this =
     map (\<lambda>n. \<lparr>node_id = ud_id (userData n), position = mesh_position n,
               freq = ud_freq (userData n), amp = ud_amp (userData n),
               hue = ud_hue (userData n), connections = ud_connections (userData n)\<rparr>)
         (nm_nodes this)"

text \<open>The record that \<open>exportNetwork\<close> builds from one mesh.\<close>

definition to_node :: "Mesh \<Rightarrow> node" where
  "to_node n = \<lparr>node_id = ud_id (userData n), position = mesh_position n,
               freq = ud_freq (userData n), amp = ud_amp (userData n),
               hue = ud_hue (userData n), connections = ud_connections (userData n)\<rparr>"


section \<open>The NeuralGalaxy mode (modes/NeuralGalaxy.js): configuration\<close>

text \<open>The tuning parameters that the modelled functions read, with the values of
  \<open>DEFAULTS\<close>. The arm counts are integers, on which \<open>| 0\<close> is the identity.\<close>

record AudioCfg =
  bassEnd :: real
  lowMidEnd :: real
  highMidEnd :: real
  envLerp :: real
  envHold :: real
  midPulseHold :: real
  midPulseIn :: real
  sensGainMin :: real
  sensGainMaxAdd :: real

record ImpactCfg =
  bassHitAttack :: real
  bassHitDecay :: real

record BlendCfg =
  bassEdge :: real
  trebleEdge :: real
  softness :: real

record ArmsCfg =
  countMin :: int
  countMax :: int
  pitch :: real
  tightness :: real

record Config =
  audio :: AudioCfg
  impact :: ImpactCfg
  blend :: BlendCfg
  arms :: ArmsCfg

definition DEFAULTS :: Config where
  "DEFAULTS =
     \<lparr>audio = \<lparr>bassEnd = 0.12, lowMidEnd = 0.35, highMidEnd = 0.70,
               envLerp = 0.035, envHold = 0.965,
               midPulseHold = 0.88, midPulseIn = 0.12,
               sensGainMin = 0.40, sensGainMaxAdd = 2.80\<rparr>,
      impact = \<lparr>bassHitAttack = 0.22, bassHitDecay = 0.86\<rparr>,
      blend = \<lparr>bassEdge = 0.22, trebleEdge = 0.78, softness = 0.08\<rparr>,
      arms = \<lparr>countMin = 3, countMax = 7, pitch = 0.012, tightness = 0.72\<rparr>\<rparr>"

section \<open>The galaxy builders\<close>

text \<open>\<open>THREE.MathUtils.clamp(value, min, max)\<close> is
  \<open>Math.max(min, Math.min(max, value))\<close>; \<open>Vector3.length()\<close> is the Euclidean norm.\<close>

definition MathUtils_clamp :: "jsnum \<Rightarrow> jsnum \<Rightarrow> jsnum \<Rightarrow> jsnum" where
  "MathUtils_clamp v lo hi = Math_max lo (Math_min hi v)"

definition Vector3_length :: "Vector3 \<Rightarrow> jsnum" where
  "Vector3_length v = Math_sqrt (vx v * vx v + vy v * vy v + vz v * vz v)"

definition Math_PI :: jsnum where
  "Math_PI = Num pi"

text \<open>\<open>String(n)\<close> for a non-negative integer: its decimal digits.\<close>

fun String_of_nat :: "nat \<Rightarrow> string" where
  "String_of_nat n =
     (if n < 10 then [char_of (48 + n)]
      else String_of_nat (n div 10) @ [char_of (48 + n mod 10)])"

declare String_of_nat.simps [simp del]

text \<open>
  The geometry committed by \<open>_commitStars\<close> holds the position attribute (three numbers
  per point) and the shape-tier attribute (one per point). The colour attribute is not
  modelled. \<open>songHash\<close> is \<open>None\<close> for \<open>null\<close>; \<open>phiCache\<close> and \<open>rCache\<close> are the fields
  \<open>_phiCache\<close> and \<open>_rCache\<close>, \<open>None\<close> for \<open>null\<close>. The sorted copy of \<open>initialYs\<close> is not
  modelled (only its length, which is that of \<open>initialYs\<close>, is read below).
\<close>

record StarGeometry =
  positions :: "jsnum list"
  shapeTiers :: "jsnum list"

record NeuralGalaxy =
  cfg :: Config
  songHash :: "string option"
  ARMS_COUNT :: "nat option"
  stars :: "StarGeometry option"
  baseHues :: "jsnum list option"
  basePositions :: "jsnum list option"
  baseShapeTiers :: "jsnum list option"
  initialYs :: "jsnum list option"
  phiCache :: "jsnum list option"
  rCache :: "jsnum list option"

text \<open>The fields as the constructor leaves them.\<close>

definition NeuralGalaxy_new :: "Config \<Rightarrow> string option \<Rightarrow> NeuralGalaxy" where
  "NeuralGalaxy_new c hash =
     \<lparr>cfg = c, songHash = hash, ARMS_COUNT = None, stars = None, baseHues = None,
      basePositions = None, baseShapeTiers = None, initialYs = None,
      phiCache = None, rCache = None\<rparr>"

text \<open>\<open>this.songHash || fallback\<close>: \<open>null\<close> and the empty string are falsy.\<close>

definition songHash_or :: "NeuralGalaxy \<Rightarrow> string \<Rightarrow> string" where
  "songHash_or this fallback =
     (case songHash this of None \<Rightarrow> fallback
      | Some s \<Rightarrow> if s = [] then fallback else s)"

definition seededRandomFromHash :: "string \<Rightarrow> 32 word" where
  "seededRandomFromHash hash = foldl (\<lambda>h c. 31 * h + of_nat (of_char c)) 0 hash"

text \<open>\<open>_chooseArmsCount(rand)\<close>: one draw; returns the count and the random state.\<close>

definition chooseArmsCount :: "Config \<Rightarrow> 32 word \<Rightarrow> nat \<times> 32 word" where
  "chooseArmsCount c h =
     (let mn = max 1 (countMin (arms c));
          mx = max mn (countMax (arms c));
          h1 = next_state h;
          n = mn + \<lfloor>unit_of h1 * real_of_int (mx - mn + 1)\<rfloor>
      in (nat n, h1))"

record StarPoint =
  sp_x :: jsnum
  sp_y :: jsnum
  sp_z :: jsnum
  sp_baseHue :: jsnum
  sp_tier :: jsnum

text \<open>A point loop \<open>for (let i = 0; i < N; i++)\<close> with a body that draws from the random
  stream, and the arrays it fills.\<close>

fun star_loop :: "(nat \<Rightarrow> 32 word \<Rightarrow> StarPoint \<times> 32 word) \<Rightarrow> nat list \<Rightarrow> 32 word \<Rightarrow> StarPoint list" where
  "star_loop body [] h = []"
| "star_loop body (i # is) h = (let (p, h1) = body i h in p # star_loop body is h1)"

definition positions_of :: "StarPoint list \<Rightarrow> jsnum list" where
  "positions_of ps = concat (map (\<lambda>p. [sp_x p, sp_y p, sp_z p]) ps)"

definition cacheBaselines :: "NeuralGalaxy \<Rightarrow> jsnum list \<Rightarrow> jsnum list \<Rightarrow> NeuralGalaxy" where
  "cacheBaselines this pos tiers =
     this\<lparr>basePositions := Some pos, baseShapeTiers := Some tiers,
          initialYs := Some (map (\<lambda>i. pos ! (i * 3 + 1)) [0..<length pos div 3])\<rparr>"

definition commitStars :: "NeuralGalaxy \<Rightarrow> jsnum list \<Rightarrow> jsnum list \<Rightarrow> NeuralGalaxy" where
  "commitStars this pos tiers = this\<lparr>stars := Some \<lparr>positions = pos, shapeTiers = tiers\<rparr>\<rparr>"

text \<open>The loop body of \<open>createNeutralSpiral(N)\<close>.\<close>

definition spiral_point :: "nat \<Rightarrow> nat \<Rightarrow> nat \<Rightarrow> 32 word \<Rightarrow> StarPoint \<times> 32 word" where
  "spiral_point N armsCount i h =
     (let t = Num (real i) / Num (real N);
          radius = Num 50 + t * Num 200;
          armIdx = Num (real (i mod armsCount)) / Num (real armsCount);
          armAngle = armIdx * Math_PI * Num 2;
          angle = t * Math_PI * Num 6 + armAngle * Num 0.35;
          u = MathUtils_clamp t (Num 0) (Num 1);
          phi = (Num 1 - u) * Math_PI;
          lat = Math_sin phi;
          (r, h1) = rand h;
          ripple = Math_sin (angle * Num 2) * Num 10 + (r - Num 0.5) * Num 6;
          R = Math_max (Num 0.001) (radius + ripple);
          x = Math_cos angle * (R * lat);
          z = Math_sin angle * (R * lat);
          y = Math_cos phi * R;
          baseHue = js_rem (Num 0.6 + t * Num 0.4) (Num 1)
      in (\<lparr>sp_x = x, sp_y = y, sp_z = z, sp_baseHue = baseHue, sp_tier = Num 1\<rparr>, h1))"

definition createNeutralSpiral :: "NeuralGalaxy \<Rightarrow> nat \<Rightarrow> NeuralGalaxy" where
  "createNeutralSpiral this N =
     (let h0 = seededRandomFromHash (songHash_or this (String_of_nat N));
          (armsCount, h1) = chooseArmsCount (cfg this) h0;
          ps = star_loop (spiral_point N armsCount) [0..<N] h1;
          this1 = this\<lparr>ARMS_COUNT := Some armsCount, baseHues := Some (map sp_baseHue ps)\<rparr>;
          this2 = cacheBaselines this1 (positions_of ps) (map sp_tier ps)
      in commitStars this2 (positions_of ps) (map sp_tier ps))"

text \<open>The loop body of \<open>createGalaxyFromNeuralMap(data)\<close> for a non-empty node list. The
  first draw goes to \<open>radiusBase\<close>, the second to \<open>ripple\<close>.\<close>

definition galaxy_point :: "node list \<Rightarrow> nat \<Rightarrow> nat \<Rightarrow> nat \<Rightarrow> 32 word \<Rightarrow> StarPoint \<times> 32 word" where
  "galaxy_point data N armsCount i h =
     (let node = data ! (i mod length data);
          posV = position node;
          amp = amp node;
          freq = freq node;
          hue = js_rem (hue node) (Num 1);
          armIdx = Num (real (i mod armsCount)) / Num (real armsCount);
          armAngle = armIdx * Math_PI * Num 2;
          t = Num (real i) / Num (real N);
          (r1, h1) = rand h;
          radiusBase = Vector3_length posV * Num 1.4 + amp * Num 90 + r1 * Num 20;
          swirl = (t * Num 7 + freq * Num 1.5) * Math_PI;
          angle = hue * Math_PI * Num 2 + armAngle + swirl
                    + Math_sin (freq * Num 20 + Num (real i) * Num 0.1) * Num 0.6;
          u = MathUtils_clamp (freq * Num 8) (Num 0) (Num 1);
          phi = (Num 1 - u) * Math_PI;
          lat = Math_sin phi;
          (r2, h2) = rand h1;
          ripple = Math_sin (freq * Num 18 + t * Num 10) * Num 10 + (r2 - Num 0.5) * Num 7;
          R = Math_max (Num 0.001) (radiusBase + ripple);
          x = Math_cos angle * (R * lat);
          z = Math_sin angle * (R * lat);
          y = Math_cos phi * R;
          baseHue = js_rem (hue + freq * Num 0.30) (Num 1);
          fNorm = MathUtils_clamp (freq * Num 8) (Num 0) (Num 1);
          tier = (if js_lt fNorm (Num 0.33) then Num 0
                  else if js_lt fNorm (Num 0.66) then Num 1 else Num 2)
      in (\<lparr>sp_x = x, sp_y = y, sp_z = z, sp_baseHue = baseHue, sp_tier = tier\<rparr>, h2))"

definition createGalaxyFromNeuralMap :: "NeuralGalaxy \<Rightarrow> node list \<Rightarrow> NeuralGalaxy" where
  "createGalaxyFromNeuralMap this data =
     (let N = min 4000 (max 900 (length data * 10))
      in if length data = 0 then createNeutralSpiral this N
         else
           (let h0 = seededRandomFromHash (songHash_or this (String_of_nat (length data)));
                (armsCount, h1) = chooseArmsCount (cfg this) h0;
                ps = star_loop (galaxy_point data N armsCount) [0..<N] h1;
                this1 = this\<lparr>ARMS_COUNT := Some armsCount, baseHues := Some (map sp_baseHue ps)\<rparr>;
                this2 = cacheBaselines this1 (positions_of ps) (map sp_tier ps)
            in commitStars this2 (positions_of ps) (map sp_tier ps)))"

section \<open>The per-point smoothing caches of \<open>updateStars\<close>\<close>

text \<open>
  \<open>updateStars\<close> returns at once unless the stars, the base positions and at least two
  base heights exist. Otherwise it takes the point count from the position attribute,
  replaces each cache that is absent or of another length by a zero-filled array of that
  length, and then, for each point \<open>i\<close>, reads the cached angle and radius, moves them
  towards this frame's targets and writes them back:
  \<open>phi = prevPhi + (phiTarget - prevPhi) * aPhi\<close>, \<open>rS = prevR + (rTarget - prevR) * aR\<close>
  (a cache entry is never \<open>undefined\<close>, so \<open>?? phi0\<close> and \<open>?? rBase\<close> never apply).
  The targets and the blend factors of a frame, which the loop computes from the base
  positions, the audio features and the frame time, are given here as \<open>FrameTargets\<close>.
\<close>

record FrameTargets =
  phiTarget :: "nat \<Rightarrow> jsnum"
  rTarget :: "nat \<Rightarrow> jsnum"
  aPhi :: jsnum
  aR :: jsnum

definition ensureCache :: "jsnum list option \<Rightarrow> nat \<Rightarrow> jsnum list" where
  "ensureCache cache count =
     (case cache of
        None \<Rightarrow> replicate count (Num 0)
      | Some c \<Rightarrow> if length c \<noteq> count then replicate count (Num 0) else c)"

definition updateStars_active :: "NeuralGalaxy \<Rightarrow> bool" where
  "updateStars_active this =
     (stars this \<noteq> None \<and> basePositions this \<noteq> None \<and>
      (case initialYs this of None \<Rightarrow> False | Some ys \<Rightarrow> 2 \<le> length ys))"

definition updateStars_caches :: "NeuralGalaxy \<Rightarrow> FrameTargets \<Rightarrow> NeuralGalaxy" where
  "updateStars_caches this F =
     (if \<not> updateStars_active this then this
      else
        (let count = length (positions (the (stars this))) div 3;
             phis = ensureCache (phiCache this) count;
             rs = ensureCache (rCache this) count;
             phis' = map (\<lambda>i. let prevPhi = phis ! i
                                in prevPhi + (phiTarget F i - prevPhi) * aPhi F) [0..<count];
             rs' = map (\<lambda>i. let prevR = rs ! i
                              in prevR + (rTarget F i - prevR) * aR F) [0..<count]
         in this\<lparr>phiCache := Some phis', rCache := Some rs'\<rparr>))"

section \<open>The audio feature extractor (class AudioFeatures)\<close>

text \<open>
  The per-frame arithmetic of the feature extractor and of the arm lanes is modelled over
  the reals: its inputs are bytes, configuration constants and a sensitivity in
  \<open>[0, 1]\<close>, every division is guarded, and the claims about it fix numeric ranges, so
  neither NaN nor an infinity arises. The band edges, which decide the bins of each band,
  and the zone weights are computed with the rounding of double precision. The frequency
  snapshot is the \<open>Uint8Array\<close> that \<open>getByteFrequencyData\<close> fills; it is an argument
  of \<open>sample\<close>.
\<close>

definition clamp :: "real \<Rightarrow> real \<Rightarrow> real \<Rightarrow> real" where
  "clamp v lo hi = max lo (min hi v)"

record Bands =
  bass :: real
  lowMid :: real
  highMid :: real
  treble :: real

record BandSums =
  sumBass :: nat
  nBass :: nat
  sumLowMid :: nat
  nLowMid :: nat
  sumHighMid :: nat
  nHighMid :: nat
  sumTreble :: nat
  nTreble :: nat

text \<open>The loop of \<open>_computeBands\<close> from index \<open>i\<close> on.\<close>

fun bands_loop :: "int \<Rightarrow> int \<Rightarrow> int \<Rightarrow> nat \<Rightarrow> 8 word list \<Rightarrow> BandSums \<Rightarrow> BandSums" where
  "bands_loop bE lE hE i [] acc = acc"
| "bands_loop bE lE hE i (v # vs) acc =
     bands_loop bE lE hE (Suc i) vs
       (if int i < bE then acc\<lparr>sumBass := sumBass acc + unat v, nBass := nBass acc + 1\<rparr>
        else if int i < lE then acc\<lparr>sumLowMid := sumLowMid acc + unat v, nLowMid := nLowMid acc + 1\<rparr>
        else if int i < hE then acc\<lparr>sumHighMid := sumHighMid acc + unat v, nHighMid := nHighMid acc + 1\<rparr>
        else acc\<lparr>sumTreble := sumTreble acc + unat v, nTreble := nTreble acc + 1\<rparr>)"

definition band_mean :: "nat \<Rightarrow> nat \<Rightarrow> real" where
  "band_mean s n = (if n \<noteq> 0 then real s / real n else 0) / 255"

text \<open>\<open>_computeBands\<close>: the band edges are \<open>Math.floor(len * edge)\<close> of the rounded
  product, for the edge that the configuration holds as a double.\<close>

definition computeBands :: "Config \<Rightarrow> 8 word list \<Rightarrow> Bands" where
  "computeBands c dataArray =
     (let len = length dataArray
      in if len = 0 then \<lparr>bass = 0, lowMid = 0, highMid = 0, treble = 0\<rparr>
         else
           (let bE = \<lfloor>fl (real len * fl (bassEnd (audio c)))\<rfloor>;
                lE = \<lfloor>fl (real len * fl (lowMidEnd (audio c)))\<rfloor>;
                hE = \<lfloor>fl (real len * fl (highMidEnd (audio c)))\<rfloor>;
                s = bands_loop bE lE hE 0 dataArray
                      \<lparr>sumBass = 0, nBass = 0, sumLowMid = 0, nLowMid = 0,
                       sumHighMid = 0, nHighMid = 0, sumTreble = 0, nTreble = 0\<rparr>
            in \<lparr>bass = band_mean (sumBass s) (nBass s),
                lowMid = band_mean (sumLowMid s) (nLowMid s),
                highMid = band_mean (sumHighMid s) (nHighMid s),
                treble = band_mean (sumTreble s) (nTreble s)\<rparr>))"

record AudioFeatures =
  prevLowMid :: real
  prevBass :: real
  bassEnv :: real
  trebleEnv :: real
  midPulse :: real
  bassHit :: real

definition AudioFeatures_new :: AudioFeatures where
  "AudioFeatures_new =
     \<lparr>prevLowMid = 0, prevBass = 0, bassEnv = 0, trebleEnv = 0, midPulse = 0, bassHit = 0\<rparr>"

record FeatureFrame =
  sensGain :: real
  bands :: Bands
  pulseScaled :: real
  out_bassEnv :: real
  out_trebleEnv :: real
  out_bassHit :: real
  loudness :: real

text \<open>\<open>sample(sensNorm, cfg)\<close>: the returned frame and the extractor after the call.\<close>

definition sample :: "Config \<Rightarrow> real \<Rightarrow> 8 word list \<Rightarrow> AudioFeatures \<Rightarrow> FeatureFrame \<times> AudioFeatures" where
  "sample c sensNorm dataArray this =
     (let sensGain = sensGainMin (audio c) + sensNorm * sensGainMaxAdd (audio c);
          bands = computeBands c dataArray;
          dLowMid = lowMid bands - prevLowMid this;
          rawPulse = max 0 (dLowMid * 9.0);
          midPulse1 = midPulse this * midPulseHold (audio c) + rawPulse * midPulseIn (audio c);
          midPulse2 = clamp midPulse1 0 1.5;
          pulseScaled = clamp (midPulse2 * (0.65 + sensNorm * 1.35)) 0 1.0;
          bassTarget = clamp (bass bands * sensGain) 0 1;
          trebleTarget = clamp (treble bands * sensGain) 0 1;
          bassEnv1 = bassEnv this * envHold (audio c) + bassTarget * envLerp (audio c);
          trebleEnv1 = trebleEnv this * envHold (audio c) + trebleTarget * envLerp (audio c);
          dBass = bass bands - prevBass this;
          hit = max 0 dBass * (10.0 + sensNorm * 20.0);
          bassHit1 = bassHit this * bassHitDecay (impact c) + hit * bassHitAttack (impact c);
          bassHit2 = clamp bassHit1 0 1.25;
          loudness = (bass bands + lowMid bands + highMid bands + treble bands) * 0.25
      in (\<lparr>sensGain = sensGain, bands = bands, pulseScaled = pulseScaled,
           out_bassEnv = clamp bassEnv1 0 1, out_trebleEnv = clamp trebleEnv1 0 1,
           out_bassHit = bassHit2, loudness = loudness\<rparr>,
          \<lparr>prevLowMid = lowMid bands, prevBass = bass bands,
           bassEnv = bassEnv1, trebleEnv = trebleEnv1,
           midPulse = midPulse2, bassHit = bassHit2\<rparr>))"

text \<open>The extractor after a sequence of frames, each a sensitivity and a snapshot.\<close>

fun run_frames :: "Config \<Rightarrow> (real \<times> 8 word list) list \<Rightarrow> AudioFeatures \<Rightarrow> AudioFeatures" where
  "run_frames c [] this = this"
| "run_frames c ((sensNorm, dataArray) # frames) this =
     run_frames c frames (snd (sample c sensNorm dataArray this))"

text \<open>The value that \<open>updateStars\<close> hands to the shader as \<open>uBassHit\<close>.\<close>

definition uBassHit :: "real \<Rightarrow> real \<Rightarrow> real" where
  "uBassHit hit sensNorm = clamp (hit * (0.85 + sensNorm * 0.55)) 0 1.35"

section \<open>Zone weights and arm lanes of the deformation loop (updateStars)\<close>

text \<open>
  The zone weights are computed with the rounding of double precision, since the claim
  about them is an exact equation. \<open>Math.exp\<close> is implementation-approximated in
  ECMAScript; it is the parameter \<open>ex\<close> of the functions below. The operands of the
  divisions are never zero and no operation overflows for blend parameters in their
  clamped ranges and heights in \<open>[0, 1]\<close>.
\<close>

definition sigmoid :: "(real \<Rightarrow> real) \<Rightarrow> real \<Rightarrow> real" where
  "sigmoid ex x = fl (1 / fl (1 + ex (- x)))"

definition logisticWindow :: "(real \<Rightarrow> real) \<Rightarrow> real \<Rightarrow> real \<Rightarrow> real \<Rightarrow> real \<Rightarrow> real" where
  "logisticWindow ex y a b k =
     (let s1 = sigmoid ex (fl (fl (y - a) / k));
          s2 = sigmoid ex (fl (fl (y - b) / k))
      in max 0 (fl (s1 - s2)))"

text \<open>The three normalised weights \<open>(wB, wM, wT)\<close> of a point with normalised height
  \<open>yNorm\<close>, for the clamped blend parameters.\<close>

definition zoneWeights ::
  "(real \<Rightarrow> real) \<Rightarrow> real \<Rightarrow> real \<Rightarrow> real \<Rightarrow> real \<Rightarrow> real \<times> real \<times> real" where
  "zoneWeights ex yNorm bassEdgeN trebleEdgeN k =
     (let trebleW = sigmoid ex (fl (fl (yNorm - trebleEdgeN) / k));
          bassW = fl (1 - sigmoid ex (fl (fl (yNorm - bassEdgeN) / k)));
          midW = logisticWindow ex yNorm bassEdgeN trebleEdgeN k;
          sumW = max (fl 0.000001) (fl (fl (bassW + midW) + trebleW))
      in (fl (bassW / sumW), fl (midW / sumW), fl (trebleW / sumW)))"

text \<open>The weights of the point with base height \<open>by\<close>, as the loop derives them from the
  configuration and from the least and greatest base height. The literals are the doubles
  nearest to them.\<close>

definition pointWeights ::
  "(real \<Rightarrow> real) \<Rightarrow> Config \<Rightarrow> real \<Rightarrow> real \<Rightarrow> real \<Rightarrow> real \<times> real \<times> real" where
  "pointWeights ex c yMin yMax by =
     (let bassEdgeN = clamp (fl (bassEdge (blend c))) (fl 0.02) (fl 0.48);
          trebleEdgeN = clamp (fl (trebleEdge (blend c))) (fl 0.52) (fl 0.98);
          k = clamp (fl (softness (blend c))) (fl 0.015) (fl 0.25);
          yNorm = clamp (fl (fl (by - yMin) / max (fl 0.000001) (fl (yMax - yMin)))) 0 1
      in zoneWeights ex yNorm bassEdgeN trebleEdgeN k)"

text \<open>\<open>THREE.MathUtils.lerp(x, y, t)\<close> is \<open>(1 - t) * x + t * y\<close>.\<close>

definition lerp :: "real \<Rightarrow> real \<Rightarrow> real \<Rightarrow> real" where
  "lerp x y t = (1 - t) * x + t * y"

text \<open>The unwrapped lane angle of point \<open>i\<close>:
  \<open>armAngle + rBase * pitch\<close> with \<open>armAngle = (i % armsCount) / armsCount * Math.PI * 2\<close>.\<close>

definition laneAngle :: "Config \<Rightarrow> nat \<Rightarrow> nat \<Rightarrow> real \<Rightarrow> real" where
  "laneAngle c armsCount i rBase =
     (real (i mod armsCount) / real armsCount) * pi * 2 + rBase * pitch (arms c)"

definition armAssert :: "Config \<Rightarrow> real \<Rightarrow> real \<Rightarrow> real \<Rightarrow> real \<Rightarrow> real" where
  "armAssert c midEnergyGlobal sensNorm intensity wM =
     (let snapBoost = (0.25 + 0.75 * midEnergyGlobal) * (0.55 + 0.45 * sensNorm)
      in clamp (tightness (arms c) * snapBoost * (0.55 + 0.45 * intensity) * (0.20 + 0.80 * wM)) 0 1)"

text \<open>\<open>while (spiralBase < theta) spiralBase += Math.PI * 2\<close>.\<close>

function wrapForward :: "real \<Rightarrow> real \<Rightarrow> real" where
  "wrapForward spiralBase theta =
     (if spiralBase < theta then wrapForward (spiralBase + pi * 2) theta else spiralBase)"
  by pat_completeness auto
termination
proof (relation "measure (\<lambda>(spiralBase, theta). nat \<lceil>(theta - spiralBase) / (pi * 2)\<rceil>)")
  show "wf (measure (\<lambda>(spiralBase, theta). nat \<lceil>(theta - spiralBase) / (pi * 2)\<rceil>))"
    by simp
next
  fix spiralBase theta :: real
  assume lt: "spiralBase < theta"
  have "(theta - (spiralBase + pi * 2)) / (pi * 2) = (theta - spiralBase) / (pi * 2) - 1"
    by (simp add: field_simps)
  then have "\<lceil>(theta - (spiralBase + pi * 2)) / (pi * 2)\<rceil> = \<lceil>(theta - spiralBase) / (pi * 2)\<rceil> - 1"
    by simp
  moreover have "0 < \<lceil>(theta - spiralBase) / (pi * 2)\<rceil>"
    using lt by (simp add: field_simps)
  ultimately show "((spiralBase + pi * 2, theta), (spiralBase, theta))
      \<in> measure (\<lambda>(spiralBase, theta). nat \<lceil>(theta - spiralBase) / (pi * 2)\<rceil>)"
    by simp
qed

declare wrapForward.simps [simp del]

text \<open>The azimuth after the lane pull:
  \<open>theta = THREE.MathUtils.lerp(theta, spiralBase, armAssert)\<close> with the wrapped lane angle.\<close>

definition lanePull :: "real \<Rightarrow> real \<Rightarrow> real \<Rightarrow> real" where
  "lanePull theta spiralBase a = lerp theta (wrapForward spiralBase theta) a"

text \<open>The ranges that the extractor's persistent values stay in.\<close>

definition features_ok :: "AudioFeatures \<Rightarrow> bool" where
  "features_ok st \<longleftrightarrow>
     0 \<le> prevLowMid st \<and> 0 \<le> prevBass st \<and>
     0 \<le> midPulse st \<and> midPulse st \<le> 1.5 \<and> 0 \<le> bassHit st \<and> bassHit st \<le> 1.25"


section \<open>The structure generator in the store of the program\<close>

text \<open>
  In the program the random state is the variable \<open>h\<close> captured by the closure that
  \<open>seededRandom\<close> returns, and every call of \<open>seededRandom\<close> binds a new \<open>h\<close>. To state
  what one call of the generator can see of another, the captured variables are placed in a
  store: the 32-bit value at each address, and the next unused address.
  \<open>seededRandom_st\<close> binds \<open>h\<close> at a new address, runs the seeding loop and returns the
  address as the closure; \<open>rand_st\<close> is a call of the closure, which reads and writes \<open>h\<close>
  at that address. The functions below are the generator of MapDNA.js once more, line by
  line, with the store passed through every call of \<open>rand\<close>.
\<close>

record Store =
  vars :: "nat \<Rightarrow> 32 word"
  fresh :: nat

definition seededRandom_st :: "string \<Rightarrow> Store \<Rightarrow> nat \<times> Store" where
  "seededRandom_st seed s =
     (let a = fresh s;
          s0 = \<lparr>vars = (vars s)(a := 0), fresh = Suc a\<rparr>;
          s1 = foldl (\<lambda>s c. s\<lparr>vars := (vars s)(a := 31 * vars s a + of_nat (of_char c))\<rparr>) s0 seed
      in (a, s1))"

definition rand_st :: "nat \<Rightarrow> Store \<Rightarrow> jsnum \<times> Store" where
  "rand_st rnd s =
     (let s' = s\<lparr>vars := (vars s)(rnd := 1664525 * vars s rnd + 1013904223)\<rparr>
      in (Num (real (unat (vars s' rnd)) / 4294967296), s'))"

definition make_node_st :: "jsnum list \<Rightarrow> nat \<Rightarrow> nat \<Rightarrow> nat \<Rightarrow> nat \<Rightarrow> Store \<Rightarrow> node \<times> Store" where
  "make_node_st data nodeCount step i rnd s =
     (let slice = slice_of data step i;
          amp = maxAbs slice;
          freq = extractDominantFrequency slice;
          (r1, s1) = rand_st rnd s;
          x = (Num (real i) / Num (real nodeCount) - Num 0.5) * Num 40 + (r1 - Num 0.5) * Num 10;
          y = (amp - Num 0.5) * Num 80 + Math_sin (freq * Num 0.1) * Num 20;
          (r2, s2) = rand_st rnd s1;
          z = (r2 - Num 0.5) * Num 30 + Math_cos (Num (real i) * Num 0.001) * Num 10;
          hue = js_rem (Num (real i) / Num (real nodeCount) + amp) (Num 1)
      in (\<lparr>node_id = i, position = \<lparr>vx = x, vy = y, vz = z\<rparr>,
           freq = freq, amp = amp, hue = hue, connections = []\<rparr>, s2))"

fun build_nodes_st :: "jsnum list \<Rightarrow> nat \<Rightarrow> nat \<Rightarrow> nat list \<Rightarrow> nat \<Rightarrow> Store \<Rightarrow> node list \<times> Store" where
  "build_nodes_st data nodeCount step [] rnd s = ([], s)"
| "build_nodes_st data nodeCount step (i # is) rnd s =
     (let (nd, s1) = make_node_st data nodeCount step i rnd s;
          (nds, s2) = build_nodes_st data nodeCount step is rnd s1
      in (nd # nds, s2))"

fun connect_row_st :: "node list \<Rightarrow> nat \<Rightarrow> nat list \<Rightarrow> nat \<Rightarrow> Store \<Rightarrow> nat list \<times> Store" where
  "connect_row_st nodes i [] rnd s = ([], s)"
| "connect_row_st nodes i (j # js) rnd s =
     (if i = j then connect_row_st nodes i js rnd s
      else if js_lt (distanceTo (position (nodes ! i)) (position (nodes ! j))) maxDist
      then (let (r, s1) = rand_st rnd s;
                (cs, s2) = connect_row_st nodes i js rnd s1
            in if js_lt r (Num 0.7) then (j # cs, s2) else (cs, s2))
      else connect_row_st nodes i js rnd s)"

fun connect_all_st :: "node list \<Rightarrow> nat list \<Rightarrow> nat \<Rightarrow> Store \<Rightarrow> node list \<times> Store" where
  "connect_all_st nodes [] rnd s = (nodes, s)"
| "connect_all_st nodes (i # is) rnd s =
     (let (cs, s1) = connect_row_st nodes i [0..<length nodes] rnd s
      in connect_all_st (nodes[i := (nodes ! i)\<lparr>connections := connections (nodes ! i) @ cs\<rparr>]) is rnd s1)"

text \<open>\<open>getChannelData(0)\<close> is called first; when it raises, nothing has been bound.\<close>

definition buildMapDataFromAudio_st :: "AudioBuffer \<Rightarrow> string \<Rightarrow> Store \<Rightarrow> node list option \<times> Store" where
  "buildMapDataFromAudio_st audioBuffer hash s =
     (case getChannelData audioBuffer 0 of
        None \<Rightarrow> (None, s)
      | Some data \<Rightarrow>
          (let (rnd, s0) = seededRandom_st (if hash = [] then ''seed'' else hash) s;
               nodeCount = nodeCount_of (duration audioBuffer);
               step = step_of (length data) nodeCount;
               (nodes, s1) = build_nodes_st data nodeCount step [0..<nodeCount] rnd s0;
               (nodes', s2) = connect_all_st nodes [0..<nodeCount] rnd s1
           in (Some nodes', s2)))"

text \<open>
  The random stream of a seed: \<open>stream hash k\<close> is the value of the \<open>k\<close>-th call of
  the closure made from \<open>hash || 'seed'\<close>, for the argument \<open>hash\<close> passed as
  \<open>audioHash\<close>. Two nodes are \<open>near\<close> when they differ and are less than \<open>maxDist\<close>
  apart; only for such a pair the connection loop draws a number.
  \<open>draws_before nodes i j\<close> is the number of near pairs that the connection loop has met
  before it reaches the pair \<open>(i, j)\<close>.
\<close>

definition stream :: "string \<Rightarrow> nat \<Rightarrow> jsnum" where
  "stream hash k =
     Num (unit_of ((next_state ^^ k) (seededRandom (if hash = [] then ''seed'' else hash))))"

definition near :: "node list \<Rightarrow> nat \<Rightarrow> nat \<Rightarrow> bool" where
  "near nodes i j \<longleftrightarrow>
     i \<noteq> j \<and> js_lt (distanceTo (position (nodes ! i)) (position (nodes ! j))) maxDist"

definition draws_before :: "node list \<Rightarrow> nat \<Rightarrow> nat \<Rightarrow> nat" where
  "draws_before nodes i j =
     sum_list (map (\<lambda>i'. length (filter (near nodes i') [0..<length nodes])) [0..<i]) +
     length (filter (near nodes i) [0..<j])"

section \<open>Properties of the rounding\<close>

lemma round_even_error: "\<bar>of_int (round_even a) - a\<bar> \<le> 1 / 2"
  unfolding round_even_def Let_def by (auto simp: abs_le_iff; linarith)

lemma round_even_ge: "of_int n \<le> a \<Longrightarrow> n \<le> round_even a"
  unfolding round_even_def Let_def by (auto simp: le_floor_iff; linarith)

lemma round_even_le: "a \<le> of_int n \<Longrightarrow> round_even a \<le> n"
proof -
  assume a: "a \<le> of_int n"
  show ?thesis
  proof (cases "a = of_int n")
    case True
    then show ?thesis by (simp add: round_even_def)
  next
    case False
    with a have "a < of_int n" by simp
    then have "\<lfloor>a\<rfloor> < n" by (simp add: floor_less_iff)
    then have "\<lfloor>a\<rfloor> + 1 \<le> n" by simp
    then show ?thesis unfolding round_even_def Let_def by auto
  qed
qed

lemma round_even_int: "round_even (of_int n) = n"
  by (simp add: round_even_def)

lemma ulp_pos: "0 < ulp x"
  by (simp add: ulp_def)

lemma fl_nonneg: "0 \<le> x \<Longrightarrow> 0 \<le> fl x"
proof -
  assume "0 \<le> x"
  then have "of_int 0 \<le> x / ulp x" using ulp_pos [of x] by simp
  then have "0 \<le> round_even (x / ulp x)" by (rule round_even_ge)
  then show ?thesis using ulp_pos [of x] by (simp add: fl_def)
qed

lemma fl_error: "\<bar>fl x - x\<bar> \<le> ulp x / 2"
proof (cases "x = 0")
  case True
  then show ?thesis using ulp_pos [of x] by (simp add: fl_def)
next
  case False
  have "\<bar>of_int (round_even (x / ulp x)) - x / ulp x\<bar> * ulp x \<le> 1 / 2 * ulp x"
    using round_even_error [of "x / ulp x"] ulp_pos [of x] by (intro mult_right_mono) simp_all
  moreover have "\<bar>of_int (round_even (x / ulp x)) - x / ulp x\<bar> * ulp x =
      \<bar>(of_int (round_even (x / ulp x)) - x / ulp x) * ulp x\<bar>"
    using ulp_pos [of x] by (simp add: abs_mult)
  moreover have "(of_int (round_even (x / ulp x)) - x / ulp x) * ulp x =
      of_int (round_even (x / ulp x)) * ulp x - x"
    using ulp_pos [of x] by (simp add: left_diff_distrib)
  ultimately show ?thesis using False by (simp add: fl_def)
qed

lemma powr2_int: "2 powr (real_of_int k) = power_int (2::real) k"
  by (simp add: powr_real_of_int')

lemma powr2_int_Suc: "2 powr (real_of_int k + 1) = power_int (2::real) (k + 1)"
  using powr2_int [of "k + 1"] by simp

lemma power_int2_less_D: "power_int (2::real) m < power_int 2 n \<Longrightarrow> m < n"
proof (rule ccontr)
  assume a: "power_int (2::real) m < power_int 2 n" and "\<not> m < n"
  then have "n \<le> m" by simp
  then have "power_int (2::real) n \<le> power_int 2 m" by (rule power_int_increasing) simp
  with a show False by simp
qed

lemma floor_log2_eq:
  assumes "power_int 2 k \<le> \<bar>x\<bar>" and "\<bar>x\<bar> < power_int 2 (k + 1)"
  shows "\<lfloor>log 2 \<bar>x\<bar>\<rfloor> = k"
proof -
  have "0 < power_int (2::real) k" by simp
  then have pos: "0 < \<bar>x\<bar>" using assms(1) by linarith
  have "2 powr (of_int k) \<le> \<bar>x\<bar> \<and> \<bar>x\<bar> < 2 powr (of_int (k + 1))"
    using assms by (simp add: powr2_int powr2_int_Suc)
  then show ?thesis using pos by (simp add: floor_log_eq_powr_iff)
qed

lemma floor_log2_bounds:
  assumes "x \<noteq> 0"
  shows "power_int 2 \<lfloor>log 2 \<bar>x\<bar>\<rfloor> \<le> \<bar>x\<bar> \<and> \<bar>x\<bar> < power_int 2 (\<lfloor>log 2 \<bar>x\<bar>\<rfloor> + 1)"
proof -
  have pos: "0 < \<bar>x\<bar>" using assms by simp
  have "2 powr (of_int \<lfloor>log 2 \<bar>x\<bar>\<rfloor>) \<le> \<bar>x\<bar> \<and> \<bar>x\<bar> < 2 powr (of_int (\<lfloor>log 2 \<bar>x\<bar>\<rfloor> + 1))"
    using pos floor_log_eq_powr_iff [of "\<bar>x\<bar>" 2 "\<lfloor>log 2 \<bar>x\<bar>\<rfloor>"] by simp
  then show ?thesis by (simp add: powr2_int powr2_int_Suc)
qed

lemma binade_eq:
  assumes "power_int 2 k \<le> \<bar>x\<bar>" and "\<bar>x\<bar> < power_int 2 (k + 1)"
  shows "binade x = max (- 1022) k"
  using floor_log2_eq [OF assms] by (simp add: binade_def)

lemma binade_upper: "\<bar>x\<bar> < power_int 2 (binade x + 1)"
proof (cases "x = 0")
  case True
  then show ?thesis by simp
next
  case False
  have "\<bar>x\<bar> < power_int 2 (\<lfloor>log 2 \<bar>x\<bar>\<rfloor> + 1)" using floor_log2_bounds [OF False] by simp
  also have "\<dots> \<le> power_int 2 (binade x + 1)"
    by (rule power_int_increasing) (simp_all add: binade_def)
  finally show ?thesis .
qed

lemma binade_mono_bound:
  assumes "\<bar>x\<bar> < power_int 2 (k + 1)" and "- 1022 \<le> k" and False: "x \<noteq> 0"
  shows "binade x \<le> k"
proof -
  have "power_int (2::real) \<lfloor>log 2 \<bar>x\<bar>\<rfloor> < power_int 2 (k + 1)"
    using floor_log2_bounds [OF False] assms(1) by linarith
  then have "\<lfloor>log 2 \<bar>x\<bar>\<rfloor> < k + 1"
    by (rule power_int2_less_D)
  then show ?thesis using assms(2) by (simp add: binade_def)
qed

lemma fl_eval:
  assumes "power_int 2 k \<le> \<bar>x\<bar>" and "\<bar>x\<bar> < power_int 2 (k + 1)" and "- 1022 \<le> k"
  shows "fl x = of_int (round_even (x / power_int 2 (k - 52))) * power_int 2 (k - 52)"
proof -
  have "0 < power_int (2::real) k" by simp
  then have "0 < \<bar>x\<bar>" using assms(1) by linarith
  then have "x \<noteq> 0" by simp
  moreover have "binade x = k" using binade_eq [OF assms(1,2)] assms(3) by simp
  ultimately show ?thesis by (simp add: fl_def ulp_def)
qed


lemma ulp_inverse_int:
  assumes "binade x \<le> 52"
  shows "1 / ulp x = of_int (2 ^ nat (52 - binade x))"
proof -
  have "ulp x = power_int 2 (- (52 - binade x))" by (simp add: ulp_def)
  also have "\<dots> = inverse (power_int 2 (52 - binade x))" by (rule power_int_minus)
  also have "power_int (2::real) (52 - binade x) = 2 ^ nat (52 - binade x)"
    using assms by (simp add: power_int_def)
  finally have "1 / ulp x = 1 / inverse (2 ^ nat (52 - binade x))" by simp
  also have "\<dots> = 2 ^ nat (52 - binade x)" by (simp add: field_simps)
  finally show ?thesis by simp
qed


lemma fl_le_int:
  assumes "x \<le> of_int n" and "\<bar>x\<bar> < 2 ^ 53"
  shows "fl x \<le> of_int n"
proof (cases "x = 0")
  case True
  then show ?thesis using assms by (simp add: fl_def)
next
  case False
  have "\<bar>x\<bar> < power_int 2 (52 + 1)" using assms(2) by simp
  then have b: "binade x \<le> 52" using False by (intro binade_mono_bound) simp_all
  define M :: int where "M = 2 ^ nat (52 - binade x)"
  have M: "1 / ulp x = of_int M" using ulp_inverse_int [OF b] by (simp add: M_def)
  have Mpos: "0 < M" by (simp add: M_def)
  have "x / ulp x = x * (1 / ulp x)" by simp
  then have "x / ulp x = x * of_int M" by (simp only: M)
  moreover have "x * (of_int M :: real) \<le> of_int n * of_int M"
    using assms(1) Mpos by (intro mult_right_mono) simp_all
  ultimately have "x / ulp x \<le> of_int (n * M)" by (simp only: of_int_mult)
  then have "round_even (x / ulp x) \<le> n * M" by (rule round_even_le)
  then have "of_int (round_even (x / ulp x)) \<le> (of_int (n * M) :: real)" by linarith
  then have "of_int (round_even (x / ulp x)) * ulp x \<le> of_int (n * M) * ulp x"
    using ulp_pos [of x] by (intro mult_right_mono) simp_all
  moreover have "of_int (n * M) * ulp x = of_int n"
  proof -
    have "of_int M * ulp x = 1" using M ulp_pos [of x] by (simp add: field_simps)
    then show ?thesis by (simp add: mult.assoc)
  qed
  ultimately have "of_int (round_even (x / ulp x)) * ulp x \<le> of_int n" by linarith
  then show ?thesis using False by (simp add: fl_def)
qed

lemma fl_ge_binade:
  assumes "power_int 2 k \<le> x" and "- 1022 \<le> k"
  shows "power_int 2 k \<le> fl x"
proof -
  have kpos: "0 < power_int (2::real) k" by simp
  then have x: "0 < x" "x \<noteq> 0" "\<bar>x\<bar> = x" using assms(1) by linarith+
  define e where "e = \<lfloor>log 2 \<bar>x\<bar>\<rfloor>"
  have eb: "power_int 2 e \<le> x" "x < power_int 2 (e + 1)"
    using floor_log2_bounds [OF x(2)] x(3) by (simp_all add: e_def)
  have "power_int (2::real) k < power_int 2 (e + 1)" using assms(1) eb(2) by linarith
  then have ke: "k \<le> e" using power_int2_less_D [of k "e + 1"] by simp
  then have be: "binade x = e" using assms(2) by (simp add: binade_def e_def)
  have u: "ulp x = power_int 2 (e - 52)" by (simp add: ulp_def be)
  have "power_int (2::real) e = power_int 2 52 * power_int 2 (e - 52)"
    using power_int_add [of "2::real" 52 "e - 52"] by simp
  then have eu: "power_int (2::real) e = of_int (2 ^ 52) * ulp x" by (simp add: u)
  have "of_int (2 ^ 52) * ulp x \<le> x" using eb(1) eu by simp
  then have "of_int (2 ^ 52) \<le> x / ulp x" using ulp_pos [of x] by (simp add: field_simps)
  then have "2 ^ 52 \<le> round_even (x / ulp x)" by (rule round_even_ge)
  then have "(of_int (2 ^ 52) :: real) \<le> of_int (round_even (x / ulp x))" by linarith
  then have "of_int (2 ^ 52) * ulp x \<le> of_int (round_even (x / ulp x)) * ulp x"
    using ulp_pos [of x] by (intro mult_right_mono) simp_all
  then have "power_int 2 e \<le> fl x" using eu x(2) by (simp add: fl_def)
  moreover have "power_int (2::real) k \<le> power_int 2 e" using ke by (intro power_int_increasing) simp_all
  ultimately show ?thesis by linarith
qed

lemma fl_error_pow:
  assumes "\<bar>x\<bar> < power_int 2 (k + 1)" and "- 1022 \<le> k"
  shows "\<bar>fl x - x\<bar> \<le> power_int 2 (k - 53)"
proof (cases "x = 0")
  case True
  then show ?thesis by (simp add: fl_def)
next
  case False
  have "binade x \<le> k" using assms False by (rule binade_mono_bound)
  then have "ulp x \<le> power_int 2 (k - 52)"
    unfolding ulp_def by (intro power_int_increasing) simp_all
  moreover have "power_int (2::real) (k - 52) = 2 * power_int 2 (k - 53)"
    using power_int_add [of "2::real" 1 "k - 53"] by simp
  ultimately show ?thesis using fl_error [of x] by linarith
qed

lemma fl_error_2: "\<bar>x\<bar> < 2 \<Longrightarrow> \<bar>fl x - x\<bar> \<le> 1 / 2 ^ 53"
  using fl_error_pow [of x 0] by (simp add: power_int_minus field_simps)

lemma fl_error_4: "\<bar>x\<bar> < 4 \<Longrightarrow> \<bar>fl x - x\<bar> \<le> 1 / 2 ^ 52"
  using fl_error_pow [of x 1] by (simp add: power_int_minus field_simps)

lemma fl_ge_1: "1 \<le> x \<Longrightarrow> 1 \<le> fl x"
  using fl_ge_binade [of 0 x] by simp

lemma fl_le_nat: "0 \<le> x \<Longrightarrow> x \<le> real n \<Longrightarrow> n \<le> 4 \<Longrightarrow> fl x \<le> real n"
  using fl_le_int [of x "int n"] by simp

lemma round_even_eqI:
  assumes "of_int N - 1 / 2 < a" and "a < of_int N + 1 / 2"
  shows "round_even a = N"
proof -
  have "\<lfloor>a\<rfloor> = N \<or> \<lfloor>a\<rfloor> = N - 1" using assms by linarith
  then show ?thesis
  proof
    assume f: "\<lfloor>a\<rfloor> = N"
    then show ?thesis using assms by (simp add: round_even_def)
  next
    assume f: "\<lfloor>a\<rfloor> = N - 1"
    then show ?thesis using assms by (simp add: round_even_def)
  qed
qed

lemma fl_evalI:
  assumes "power_int 2 k \<le> \<bar>x\<bar>" and "\<bar>x\<bar> < power_int 2 (k + 1)" and "- 1022 \<le> k"
    and "of_int N - 1 / 2 < x / power_int 2 (k - 52)"
    and "x / power_int 2 (k - 52) < of_int N + 1 / 2"
    and "r = of_int N * power_int 2 (k - 52)"
  shows "fl x = r"
  using fl_eval [OF assms(1-3)] round_even_eqI [OF assms(4,5)] assms(6) by simp

lemma fl_evalR:
  assumes "power_int 2 k \<le> \<bar>x\<bar>" and "\<bar>x\<bar> < power_int 2 (k + 1)" and "- 1022 \<le> k"
    and "r = of_int (round_even (x / power_int 2 (k - 52))) * power_int 2 (k - 52)"
  shows "fl x = r"
  using fl_eval [OF assms(1-3)] assms(4) by simp

section \<open>Lemmas on the structure generators\<close>

lemma make_node_fields:
  "amp (fst (make_node data nc step i h)) = maxAbs (slice_of data step i)"
  "freq (fst (make_node data nc step i h)) = extractDominantFrequency (slice_of data step i)"
  "node_id (fst (make_node data nc step i h)) = i"
  "connections (fst (make_node data nc step i h)) = []"
  by (simp_all add: make_node_def Let_def split: prod.splits)

lemma build_nodes_Cons:
  "build_nodes data nc step (i # is) h =
     (fst (make_node data nc step i h) #
        fst (build_nodes data nc step is (snd (make_node data nc step i h))),
      snd (build_nodes data nc step is (snd (make_node data nc step i h))))"
  by (simp add: case_prod_beta Let_def)

lemma length_build_nodes:
  "length (fst (build_nodes data nc step is h)) = length is"
  by (induction "is" arbitrary: h) (simp_all add: build_nodes_Cons del: build_nodes.simps(2))

lemma nth_build_nodes:
  "k < length is \<Longrightarrow>
   \<exists>h'. fst (build_nodes data nc step is h) ! k = fst (make_node data nc step (is ! k) h')"
proof (induction "is" arbitrary: h k)
  case Nil
  then show ?case by simp
next
  case (Cons i "is")
  show ?case
  proof (cases k)
    case 0
    then show ?thesis
      by (auto simp: build_nodes_Cons simp del: build_nodes.simps(2))
  next
    case (Suc k')
    with Cons.prems have "k' < length is" by simp
    from Cons.IH [OF this, of "snd (make_node data nc step i h)"] Suc show ?thesis
      by (simp add: build_nodes_Cons del: build_nodes.simps(2))
  qed
qed

lemma connect_all_length:
  "length (fst (connect_all nodes is h)) = length nodes"
  by (induction "is" arbitrary: nodes h) (simp_all add: Let_def split: prod.splits)

lemma connect_all_fields:
  "k < length nodes \<Longrightarrow>
     amp (fst (connect_all nodes is h) ! k) = amp (nodes ! k) \<and>
     freq (fst (connect_all nodes is h) ! k) = freq (nodes ! k) \<and>
     hue (fst (connect_all nodes is h) ! k) = hue (nodes ! k) \<and>
     node_id (fst (connect_all nodes is h) ! k) = node_id (nodes ! k) \<and>
     position (fst (connect_all nodes is h) ! k) = position (nodes ! k)"
proof (induction "is" arbitrary: nodes h)
  case Nil
  then show ?case by simp
next
  case (Cons i "is")
  obtain cs h1 where r: "connect_row nodes i [0..<length nodes] h = (cs, h1)"
    by (cases "connect_row nodes i [0..<length nodes] h")
  let ?nodes' = "nodes[i := (nodes ! i)\<lparr>connections := connections (nodes ! i) @ cs\<rparr>]"
  have len: "k < length ?nodes'" using Cons.prems by simp
  have same: "amp (?nodes' ! k) = amp (nodes ! k) \<and> freq (?nodes' ! k) = freq (nodes ! k) \<and>
     hue (?nodes' ! k) = hue (nodes ! k) \<and> node_id (?nodes' ! k) = node_id (nodes ! k) \<and>
     position (?nodes' ! k) = position (nodes ! k)"
    using Cons.prems by (cases "k = i") simp_all
  from Cons.IH [OF len, of h1] same r show ?case by simp
qed

lemma length_buildMapData: "length (buildMapData data d seed) = nodeCount_of d"
  by (simp add: buildMapData_def Let_def case_prod_beta connect_all_length length_build_nodes)


lemma nodeCount_of_bounds: "50 \<le> nodeCount_of d \<and> nodeCount_of d \<le> 200"
  unfolding nodeCount_of_def by linarith


lemma nodeCount_of_0: "nodeCount_of 0 = 50"
  by (simp add: nodeCount_of_def fl_def)

lemma nodeCount_of_le_5:
  assumes "0 \<le> d" and "d \<le> 5"
  shows "nodeCount_of d = 50"
proof -
  have "d * 10 \<le> of_int 50" using assms by simp
  moreover have "\<bar>d * 10\<bar> < 2 ^ 53" using assms by simp
  ultimately have "fl (d * 10) \<le> of_int 50" by (rule fl_le_int)
  then have "\<lfloor>fl (d * 10)\<rfloor> \<le> 50" by (simp add: floor_le_iff)
  then show ?thesis by (simp add: nodeCount_of_def)
qed





lemma slice_of_take_drop: "slice_of data step i = take step (drop (i * step) data)"
proof -
  have "take (min (length data) ((i + 1) * step)) data = take ((i + 1) * step) data"
    by (simp add: min_def)
  then show ?thesis
    by (simp add: slice_of_def subarray_def drop_take)
qed

lemma concat_slices: "concat (map (slice_of data step) [0..<n]) = take (n * step) data"
proof (induction n)
  case 0
  then show ?case by simp
next
  case (Suc n)
  have "Suc n * step = n * step + step" by simp
  then have "take (Suc n * step) data = take (n * step) data @ take step (drop (n * step) data)"
    by (simp only: take_add)
  with Suc show ?case by (simp add: slice_of_take_drop)
qed

lemma length_slice_of: "length (slice_of data step i) = min step (length data - i * step)"
  by (simp add: slice_of_take_drop)

lemma nth_buildMapData:
  assumes "i < nodeCount_of d"
  shows "amp (buildMapData data d seed ! i) =
           maxAbs (slice_of data (step_of (length data) (nodeCount_of d)) i)"
    and "freq (buildMapData data d seed ! i) =
           extractDominantFrequency (slice_of data (step_of (length data) (nodeCount_of d)) i)"
    and "node_id (buildMapData data d seed ! i) = i"
proof -
  let ?h0 = "seededRandom (if seed = [] then ''seed'' else seed)"
  let ?n = "nodeCount_of d"
  let ?step = "step_of (length data) ?n"
  let ?nodes = "fst (build_nodes data ?n ?step [0..<?n] ?h0)"
  let ?h1 = "snd (build_nodes data ?n ?step [0..<?n] ?h0)"
  have eq: "buildMapData data d seed = fst (connect_all ?nodes [0..<?n] ?h1)"
    by (simp add: buildMapData_def Let_def case_prod_beta)
  have len: "i < length ?nodes" using assms by (simp add: length_build_nodes)
  obtain h' where nd: "?nodes ! i = fst (make_node data ?n ?step i h')"
    using nth_build_nodes [of i "[0..<?n]" data ?n ?step ?h0] assms by auto
  show "amp (buildMapData data d seed ! i) = maxAbs (slice_of data ?step i)"
    using connect_all_fields [OF len, of "[0..<?n]" ?h1] eq nd by (simp add: make_node_fields)
  show "freq (buildMapData data d seed ! i) = extractDominantFrequency (slice_of data ?step i)"
    using connect_all_fields [OF len, of "[0..<?n]" ?h1] eq nd by (simp add: make_node_fields)
  show "node_id (buildMapData data d seed ! i) = i"
    using connect_all_fields [OF len, of "[0..<?n]" ?h1] eq nd by (simp add: make_node_fields)
qed


lemma exportNetwork_to_node: "exportNetwork this = map to_node (nm_nodes this)"
  by (simp add: exportNetwork_def to_node_def)

lemma Math_max_no_NaN:
  "m \<noteq> NaN \<Longrightarrow> v \<noteq> NaN \<Longrightarrow> Math_max m v = (if js_gt v m then v else m)"
  by (cases m; cases v) (simp_all add: js_gt_def)

lemma Math_abs_no_NaN: "a \<noteq> NaN \<Longrightarrow> Math_abs a \<noteq> NaN"
  by (cases a) simp_all

lemma maxAbs_from_foldl:
  "NaN \<notin> set arr \<Longrightarrow> m \<noteq> NaN \<Longrightarrow>
   maxAbs_from m arr = foldl (\<lambda>m v. Math_max m (Math_abs v)) m arr"
proof (induction arr arbitrary: m)
  case Nil
  then show ?case by simp
next
  case (Cons a arr)
  from Cons.prems have "a \<noteq> NaN" by auto
  then have a: "Math_abs a \<noteq> NaN" by (rule Math_abs_no_NaN)
  have step: "Math_max m (Math_abs a) = (if js_gt (Math_abs a) m then Math_abs a else m)"
    using Cons.prems a by (simp add: Math_max_no_NaN)
  have "(if js_gt (Math_abs a) m then Math_abs a else m) \<noteq> NaN"
    using Cons.prems a by simp
  with Cons show ?case by (simp add: step Let_def)
qed

lemma NeuralMap_maxAbs_eq: "NaN \<notin> set arr \<Longrightarrow> NeuralMap_maxAbs arr = maxAbs arr"
  by (simp add: NeuralMap_maxAbs_def maxAbs_def maxAbs_from_foldl)

lemma slice_eq_slice_of: "subarray data (i * step) ((i + 1) * step) = slice_of data step i"
proof -
  have "take (min (length data) ((i + 1) * step)) data = take ((i + 1) * step) data"
    by (simp add: min_def)
  then show ?thesis by (simp add: slice_of_def subarray_def)
qed

lemma set_slice_of: "set (slice_of data step i) \<subseteq> set data"
  unfolding slice_of_take_drop by (meson set_take_subset set_drop_subset subset_trans)

lemma make_mesh_make_node:
  assumes "NaN \<notin> set data"
  shows "to_node (fst (make_mesh data nc step i h)) = fst (make_node data nc step i h)"
    and "snd (make_mesh data nc step i h) = snd (make_node data nc step i h)"
proof -
  have "NaN \<notin> set (slice_of data step i)" using assms set_slice_of by blast
  then have m: "NeuralMap_maxAbs (slice_of data step i) = maxAbs (slice_of data step i)"
    by (rule NeuralMap_maxAbs_eq)
  show "to_node (fst (make_mesh data nc step i h)) = fst (make_node data nc step i h)"
    by (simp add: make_mesh_def make_node_def to_node_def Let_def case_prod_beta
        slice_eq_slice_of m del: One_nat_def)
  show "snd (make_mesh data nc step i h) = snd (make_node data nc step i h)"
    by (simp add: make_mesh_def make_node_def Let_def case_prod_beta)
qed

lemma push_meshes_build_nodes:
  assumes "NaN \<notin> set data"
  shows "map to_node (fst (push_meshes data nc step is nodes h)) =
           map to_node nodes @ fst (build_nodes data nc step is h) \<and>
         snd (push_meshes data nc step is nodes h) = snd (build_nodes data nc step is h)"
proof (induction "is" arbitrary: nodes h)
  case Nil
  then show ?case by simp
next
  case (Cons i "is")
  show ?case
    using Cons.IH [of "nodes @ [fst (make_mesh data nc step i h)]" "snd (make_mesh data nc step i h)"]
    by (simp add: build_nodes_Cons case_prod_beta make_mesh_make_node [OF assms]
        del: build_nodes.simps(2))
qed


lemma forEach_inner_connect_row:
  assumes "position (ns ! i) = mesh_position a"
    and "\<forall>k<length bs. position (ns ! (j + k)) = mesh_position (bs ! k)"
  shows "fst (forEach_inner a i bs j h) = fst (connect_row ns i [j..<j + length bs] h) \<and>
         snd (snd (forEach_inner a i bs j h)) = snd (connect_row ns i [j..<j + length bs] h)"
  using assms(2)
proof (induction bs arbitrary: j h)
  case Nil
  then show ?case by simp
next
  case (Cons b bs)
  have "j < j + length (b # bs)" by simp
  then have "[j..<j + length (b # bs)] = j # [Suc j..<j + length (b # bs)]"
    by (rule upt_conv_Cons)
  then have upt: "[j..<j + length (b # bs)] = j # [Suc j..<Suc j + length bs]"
    by simp
  have pj: "position (ns ! j) = mesh_position b"
    using Cons.prems by (auto dest: spec [of _ 0])
  have rest: "\<forall>k<length bs. position (ns ! (Suc j + k)) = mesh_position (bs ! k)"
  proof (intro allI impI)
    fix k assume "k < length bs"
    then have "Suc k < length (b # bs)" by simp
    with Cons.prems have "position (ns ! (j + Suc k)) = mesh_position ((b # bs) ! Suc k)"
      by blast
    then show "position (ns ! (Suc j + k)) = mesh_position (bs ! k)" by simp
  qed
  note IH = Cons.IH [OF rest]
  show ?case
    using IH [of h] IH [of "snd (rand h)"]
    by (simp only: upt) (auto simp add: assms(1) pj case_prod_beta Let_def simp del: upt_Suc)
qed

lemma to_node_push:
  "to_node (a\<lparr>userData := (userData a)\<lparr>ud_connections := ud_connections (userData a) @ cs\<rparr>\<rparr>) =
   (to_node a)\<lparr>connections := connections (to_node a) @ cs\<rparr>"
  by (simp add: to_node_def)

lemma position_to_node: "position (to_node a) = mesh_position a"
  by (simp add: to_node_def)

lemma forEach_outer_connect_all:
  assumes "length ns = length nodes"
    and "i + length as = length nodes"
    and "as = drop i nodes"
    and "\<forall>k<length nodes. position (ns ! k) = mesh_position (nodes ! k)"
    and "drop i ns = map to_node as"
  shows "fst (connect_all ns [i..<length nodes] h) =
           take i ns @ map to_node (fst (forEach_outer nodes as i h))"
  using assms
proof (induction as arbitrary: i ns h)
  case Nil
  then show ?case by simp
next
  case (Cons a as)
  let ?n = "length nodes"
  have i: "i < ?n" using Cons.prems(2) by simp
  have upt: "[i..<?n] = i # [Suc i..<?n]" using i by (simp add: upt_conv_Cons)
  have a: "a = nodes ! i"
    using Cons.prems(3) i by (metis nth_via_drop)
  have nsi: "ns ! i = to_node a"
    using Cons.prems(5) by (metis list.simps(9) nth_via_drop)
  have pa: "position (ns ! i) = mesh_position a"
    by (simp add: nsi position_to_node)
  have pall: "\<forall>k<length nodes. position (ns ! (0 + k)) = mesh_position (nodes ! k)"
    using Cons.prems(4) by simp
  note inner = forEach_inner_connect_row [OF pa pall, of h]
  let ?row = "connect_row ns i [0..<?n] h"
  let ?cs = "fst ?row"
  let ?h1 = "snd ?row"
  let ?ns' = "ns[i := (ns ! i)\<lparr>connections := connections (ns ! i) @ ?cs\<rparr>]"
  have len': "length ?ns' = ?n" using Cons.prems(1) by simp
  have suc: "Suc i + length as = ?n" using Cons.prems(2) by simp
  have as: "as = drop (Suc i) nodes"
    using Cons.prems(3) by (metis drop_Suc list.sel(3) tl_drop)
  have pos': "\<forall>k<length nodes. position (?ns' ! k) = mesh_position (nodes ! k)"
  proof (intro allI impI)
    fix k assume k: "k < length nodes"
    show "position (?ns' ! k) = mesh_position (nodes ! k)"
      using Cons.prems(1,4) k by (cases "k = i") simp_all
  qed
  have drop': "drop (Suc i) ?ns' = map to_node as"
  proof -
    have "drop (Suc i) ?ns' = drop (Suc i) ns" by simp
    also have "\<dots> = tl (drop i ns)" by (simp add: drop_Suc tl_drop)
    also have "\<dots> = map to_node as" using Cons.prems(5) by simp
    finally show ?thesis .
  qed
  note IH = Cons.IH [OF len' suc as pos' drop', of ?h1]
  have take': "take (Suc i) ?ns' = take i ns @ [(to_node a)\<lparr>connections := connections (to_node a) @ ?cs\<rparr>]"
    using i Cons.prems(1) by (simp add: take_Suc_conv_app_nth nsi)
  have lhs: "fst (connect_all ns [i..<?n] h) = fst (connect_all ?ns' [Suc i..<?n] ?h1)"
    unfolding upt using Cons.prems(1) by (simp add: case_prod_beta)
  have rhs: "fst (forEach_outer nodes (a # as) i h) =
      a\<lparr>userData := (userData a)\<lparr>ud_connections := ud_connections (userData a) @ ?cs\<rparr>\<rparr> #
        fst (forEach_outer nodes as (Suc i) ?h1)"
    using inner Cons.prems(1) by (simp add: case_prod_beta Let_def)
  show ?case
    unfolding lhs IH rhs take' by (simp add: to_node_push)
qed



lemma length_push_meshes:
  "length (fst (push_meshes data nc step is nodes h)) = length nodes + length is"
  by (induction "is" arbitrary: nodes h) (simp_all add: case_prod_beta)

lemma buildNet_refines:
  assumes "NaN \<notin> set data"
  shows "exportNetwork (buildNet (clearNetwork this) data d) = buildMapData data d (audioHash this)"
proof -
  let ?h0 = "seededRandom (if audioHash this = [] then ''seed'' else audioHash this)"
  let ?n = "nodeCount_of d"
  let ?step = "step_of (length data) ?n"
  let ?pm = "push_meshes data ?n ?step [0..<?n] [] ?h0"
  let ?bn = "build_nodes data ?n ?step [0..<?n] ?h0"
  let ?nodes = "fst ?pm"
  let ?ns = "fst ?bn"
  have ns: "map to_node ?nodes = ?ns" and h1: "snd ?pm = snd ?bn"
    using push_meshes_build_nodes [OF assms, of ?n ?step "[0..<?n]" "[]" ?h0] by simp_all
  have len: "length ?nodes = ?n" by (simp add: length_push_meshes)
  have lenns: "length ?ns = length ?nodes"
    by (simp only: ns [symmetric] length_map)
  have pos: "\<forall>k<length ?nodes. position (?ns ! k) = mesh_position (?nodes ! k)"
    by (simp only: ns [symmetric]) (simp add: position_to_node)
  have "fst (connect_all ?ns [0..<length ?nodes] (snd ?bn)) =
          take 0 ?ns @ map to_node (fst (forEach_outer ?nodes ?nodes 0 (snd ?bn)))"
    by (rule forEach_outer_connect_all [OF lenns _ _ pos]) (simp_all only: ns drop_0 add_0)
  then have conn: "fst (connect_all ?ns [0..<?n] (snd ?bn)) =
          map to_node (fst (forEach_outer ?nodes ?nodes 0 (snd ?pm)))"
    by (simp add: len h1)
  have "exportNetwork (buildNet (clearNetwork this) data d) =
          map to_node (fst (forEach_outer ?nodes ?nodes 0 (snd ?pm)))"
    by (simp add: exportNetwork_to_node buildNet_def clearNetwork_def Let_def case_prod_beta)
  also have "\<dots> = buildMapData data d (audioHash this)"
    by (simp add: buildMapData_def Let_def case_prod_beta conn)
  finally show ?thesis .
qed

lemma forEach_outer_fields:
  "length (fst (forEach_outer nodes as i h)) = length as \<and>
   (\<forall>k<length as.
      ud_amp (userData (fst (forEach_outer nodes as i h) ! k)) = ud_amp (userData (as ! k)) \<and>
      ud_freq (userData (fst (forEach_outer nodes as i h) ! k)) = ud_freq (userData (as ! k)))"
proof (induction as arbitrary: i h)
  case Nil
  then show ?case by simp
next
  case (Cons a as)
  let ?h1 = "snd (snd (forEach_inner a i nodes 0 h))"
  note IH = Cons.IH [of "Suc i" ?h1]
  show ?case
  proof (intro conjI allI impI)
    show "length (fst (forEach_outer nodes (a # as) i h)) = length (a # as)"
      using IH by (simp add: case_prod_beta Let_def)
  next
    fix k assume "k < length (a # as)"
    then show "ud_amp (userData (fst (forEach_outer nodes (a # as) i h) ! k)) =
               ud_amp (userData ((a # as) ! k))"
      using IH by (cases k) (simp_all add: case_prod_beta Let_def)
  next
    fix k assume "k < length (a # as)"
    then show "ud_freq (userData (fst (forEach_outer nodes (a # as) i h) ! k)) =
               ud_freq (userData ((a # as) ! k))"
      using IH by (cases k) (simp_all add: case_prod_beta Let_def)
  qed
qed

lemma push_meshes_Cons_empty:
  "fst (push_meshes data nc step (i # is) [] h) ! 0 = fst (make_mesh data nc step i h)"
proof -
  have app: "\<And>nodes h. \<exists>ms. fst (push_meshes data nc step is nodes h) = nodes @ ms"
  proof (induction "is")
    case Nil
    show ?case by simp
  next
    case (Cons j js)
    obtain ms where "fst (push_meshes data nc step js (nodes @ [fst (make_mesh data nc step j h)])
        (snd (make_mesh data nc step j h))) = (nodes @ [fst (make_mesh data nc step j h)]) @ ms"
      using Cons by blast
    then show ?case by (simp add: case_prod_beta)
  qed
  obtain ms where "fst (push_meshes data nc step is [fst (make_mesh data nc step i h)]
      (snd (make_mesh data nc step i h))) = [fst (make_mesh data nc step i h)] @ ms"
    using app by blast
  then show ?thesis by (simp add: case_prod_beta)
qed

lemma push_meshes_prefix:
  "\<exists>ms. fst (push_meshes data nc step is nodes h) = nodes @ ms"
proof (induction "is" arbitrary: nodes h)
  case Nil
  show ?case by simp
next
  case (Cons j js)
  obtain ms where "fst (push_meshes data nc step js (nodes @ [fst (make_mesh data nc step j h)])
      (snd (make_mesh data nc step j h))) = (nodes @ [fst (make_mesh data nc step j h)]) @ ms"
    using Cons by blast
  then show ?case by (simp add: case_prod_beta)
qed

lemma push_meshes_nth:
  "k < length is \<Longrightarrow>
   \<exists>h'. fst (push_meshes data nc step is nodes h) ! (length nodes + k) =
         fst (make_mesh data nc step (is ! k) h')"
proof (induction "is" arbitrary: nodes h k)
  case Nil
  then show ?case by simp
next
  case (Cons i "is")
  let ?m = "fst (make_mesh data nc step i h)"
  let ?h1 = "snd (make_mesh data nc step i h)"
  have unfold: "fst (push_meshes data nc step (i # is) nodes h) =
      fst (push_meshes data nc step is (nodes @ [?m]) ?h1)"
    by (simp add: case_prod_beta)
  show ?case
  proof (cases k)
    case 0
    obtain ms where "fst (push_meshes data nc step is (nodes @ [?m]) ?h1) = (nodes @ [?m]) @ ms"
      using push_meshes_prefix by blast
    then have "fst (push_meshes data nc step (i # is) nodes h) ! (length nodes + 0) = ?m"
      unfolding unfold by (simp add: nth_append)
    with 0 show ?thesis by auto
  next
    case (Suc k')
    with Cons.prems have "k' < length is" by simp
    from Cons.IH [OF this, of "nodes @ [?m]" ?h1] obtain h' where
      "fst (push_meshes data nc step is (nodes @ [?m]) ?h1) ! (length (nodes @ [?m]) + k') =
       fst (make_mesh data nc step (is ! k') h')"
      by blast
    then have "fst (push_meshes data nc step (i # is) nodes h) ! (length nodes + Suc k') =
       fst (make_mesh data nc step ((i # is) ! Suc k') h')"
      unfolding unfold by simp
    with Suc show ?thesis by blast
  qed
qed

lemma make_mesh_fields:
  "ud_amp (userData (fst (make_mesh data nc step i h))) = NeuralMap_maxAbs (slice_of data step i)"
  "ud_freq (userData (fst (make_mesh data nc step i h))) =
     extractDominantFrequency (slice_of data step i)"
  by (simp_all add: make_mesh_def Let_def case_prod_beta slice_eq_slice_of del: One_nat_def)

lemma nth_buildNet:
  assumes "i < nodeCount_of d"
  shows "ud_amp (userData (nm_nodes (buildNet (clearNetwork this) data d) ! i)) =
           NeuralMap_maxAbs (slice_of data (step_of (length data) (nodeCount_of d)) i) \<and>
         ud_freq (userData (nm_nodes (buildNet (clearNetwork this) data d) ! i)) =
           extractDominantFrequency (slice_of data (step_of (length data) (nodeCount_of d)) i)"
proof -
  let ?h0 = "seededRandom (if audioHash this = [] then ''seed'' else audioHash this)"
  let ?n = "nodeCount_of d"
  let ?step = "step_of (length data) ?n"
  let ?nodes = "fst (push_meshes data ?n ?step [0..<?n] [] ?h0)"
  let ?h1 = "snd (push_meshes data ?n ?step [0..<?n] [] ?h0)"
  have net: "nm_nodes (buildNet (clearNetwork this) data d) = fst (forEach_outer ?nodes ?nodes 0 ?h1)"
    by (simp add: buildNet_def clearNetwork_def Let_def case_prod_beta)
  have len: "i < length ?nodes" using assms by (simp add: length_push_meshes)
  obtain h' where nd: "?nodes ! i = fst (make_mesh data ?n ?step i h')"
    using push_meshes_nth [of i "[0..<?n]" data ?n ?step "[]" ?h0] assms by auto
  show ?thesis
    unfolding net using forEach_outer_fields [of ?nodes ?nodes 0 ?h1] len
    by (simp add: nd make_mesh_fields)
qed
section \<open>Lemmas on the galaxy builders\<close>

lemma length_star_loop: "length (star_loop body is h) = length is"
  by (induction "is" arbitrary: h) (simp_all add: case_prod_beta)

lemma nth_star_loop:
  "k < length is \<Longrightarrow> \<exists>h'. star_loop body is h ! k = fst (body (is ! k) h')"
proof (induction "is" arbitrary: h k)
  case Nil
  then show ?case by simp
next
  case (Cons i "is")
  show ?case
  proof (cases k)
    case 0
    then show ?thesis by (auto simp: case_prod_beta)
  next
    case (Suc k')
    with Cons.prems have "k' < length is" by simp
    from Cons.IH [OF this, of "snd (body i h)"] Suc show ?thesis
      by (simp add: case_prod_beta)
  qed
qed

lemma length_positions_of: "length (positions_of ps) = 3 * length ps"
  by (induction ps) (simp_all add: positions_of_def)

lemma spiral_point_tier: "sp_tier (fst (spiral_point N a i h)) = Num 1"
  by (simp add: spiral_point_def Let_def case_prod_beta)

lemma spiral_tiers:
  "map sp_tier (star_loop (spiral_point N a) is h) = replicate (length is) (Num 1)"
proof (rule nth_equalityI)
  show "length (map sp_tier (star_loop (spiral_point N a) is h)) =
        length (replicate (length is) (Num 1 :: jsnum))"
    by (simp add: length_star_loop)
  fix k assume "k < length (map sp_tier (star_loop (spiral_point N a) is h))"
  then have k: "k < length is" by (simp add: length_star_loop)
  then obtain h' where "star_loop (spiral_point N a) is h ! k = fst (spiral_point N a (is ! k) h')"
    using nth_star_loop by blast
  with k show "map sp_tier (star_loop (spiral_point N a) is h) ! k =
               replicate (length is) (Num 1) ! k"
    by (simp add: length_star_loop spiral_point_tier)
qed

lemma createNeutralSpiral_stars:
  "\<exists>g. stars (createNeutralSpiral this N) = Some g \<and> length (positions g) = 3 * N \<and>
       shapeTiers g = replicate N (Num 1)"
  by (simp add: createNeutralSpiral_def Let_def case_prod_beta commitStars_def
      length_positions_of length_star_loop spiral_tiers)

lemma createGalaxy_empty:
  "createGalaxyFromNeuralMap this [] = createNeutralSpiral this 900"
  by (simp add: createGalaxyFromNeuralMap_def)

lemma createGalaxy_caches:
  "phiCache (createGalaxyFromNeuralMap this data) = phiCache this \<and>
   rCache (createGalaxyFromNeuralMap this data) = rCache this"
  by (simp add: createGalaxyFromNeuralMap_def createNeutralSpiral_def Let_def case_prod_beta
      commitStars_def cacheBaselines_def)

lemma createGalaxy_count:
  "\<exists>g. stars (createGalaxyFromNeuralMap this data) = Some g \<and>
       length (positions g) = 3 * min 4000 (max 900 (length data * 10)) \<and>
       length (shapeTiers g) = min 4000 (max 900 (length data * 10))"
  by (simp add: createGalaxyFromNeuralMap_def createNeutralSpiral_def Let_def case_prod_beta
      commitStars_def length_positions_of length_star_loop)

lemma createGalaxy_active: "updateStars_active (createGalaxyFromNeuralMap this data)"
  by (simp add: le_max_iff_disj updateStars_active_def createGalaxyFromNeuralMap_def createNeutralSpiral_def
      Let_def case_prod_beta commitStars_def cacheBaselines_def length_positions_of
      length_star_loop)

lemma length_ensureCache: "length (ensureCache c count) = count"
  by (simp add: ensureCache_def split: option.splits)

lemma ensureCache_reset:
  "c = None \<or> length (the c) \<noteq> count \<Longrightarrow> ensureCache c count = replicate count (Num 0)"
  by (auto simp: ensureCache_def split: option.splits)

lemma ensureCache_keep: "length xs = count \<Longrightarrow> ensureCache (Some xs) count = xs"
  by (simp add: ensureCache_def)

lemma updateStars_caches_phi:
  assumes "updateStars_active this"
  shows "phiCache (updateStars_caches this F) =
           Some (map (\<lambda>i. ensureCache (phiCache this) (length (positions (the (stars this))) div 3) ! i
                        + (phiTarget F i
                           - ensureCache (phiCache this) (length (positions (the (stars this))) div 3) ! i)
                          * aPhi F)
                 [0..<length (positions (the (stars this))) div 3])"
    and "rCache (updateStars_caches this F) =
           Some (map (\<lambda>i. ensureCache (rCache this) (length (positions (the (stars this))) div 3) ! i
                        + (rTarget F i
                           - ensureCache (rCache this) (length (positions (the (stars this))) div 3) ! i)
                          * aR F)
                 [0..<length (positions (the (stars this))) div 3])"
  using assms by (simp_all add: updateStars_caches_def Let_def)

section \<open>Lemmas on empty slices\<close>

lemma make_node_vy:
  "vy (position (fst (make_node data nc step i h))) =
     (maxAbs (slice_of data step i) - Num 0.5) * Num 80
       + Math_sin (extractDominantFrequency (slice_of data step i) * Num 0.1) * Num 20"
  by (simp add: make_node_def Let_def case_prod_beta)

lemma nth_buildMapData_vy:
  assumes "i < nodeCount_of d"
  shows "vy (position (buildMapData data d seed ! i)) =
     (maxAbs (slice_of data (step_of (length data) (nodeCount_of d)) i) - Num 0.5) * Num 80
       + Math_sin (extractDominantFrequency
            (slice_of data (step_of (length data) (nodeCount_of d)) i) * Num 0.1) * Num 20"
proof -
  let ?h0 = "seededRandom (if seed = [] then ''seed'' else seed)"
  let ?n = "nodeCount_of d"
  let ?step = "step_of (length data) ?n"
  let ?nodes = "fst (build_nodes data ?n ?step [0..<?n] ?h0)"
  let ?h1 = "snd (build_nodes data ?n ?step [0..<?n] ?h0)"
  have eq: "buildMapData data d seed = fst (connect_all ?nodes [0..<?n] ?h1)"
    by (simp add: buildMapData_def Let_def case_prod_beta)
  have len: "i < length ?nodes" using assms by (simp add: length_build_nodes)
  obtain h' where nd: "?nodes ! i = fst (make_node data ?n ?step i h')"
    using nth_build_nodes [of i "[0..<?n]" data ?n ?step ?h0] assms by auto
  show ?thesis
    using connect_all_fields [OF len, of "[0..<?n]" ?h1] eq nd by (simp add: make_node_vy)
qed

lemma extractDominantFrequency_empty: "extractDominantFrequency [] = NaN"
  by (simp add: extractDominantFrequency_def)

lemma slice_of_empty: "slice_of [] step i = []"
  by (simp add: slice_of_def subarray_def)

lemma galaxy_point_tier_NaN:
  assumes "freq (data ! (i mod length data)) = NaN"
  shows "sp_tier (fst (galaxy_point data N a i h)) = Num 2"
    and "sp_y (fst (galaxy_point data N a i h)) = NaN"
  using assms by (simp_all add: galaxy_point_def Let_def case_prod_beta MathUtils_clamp_def
      minus_jsnum_def Math_PI_def)

lemma galaxy_tiers_NaN:
  assumes "data \<noteq> []" and "\<forall>nd \<in> set data. freq nd = NaN"
  shows "map sp_tier (star_loop (galaxy_point data N a) is h) = replicate (length is) (Num 2)"
proof (rule nth_equalityI)
  show "length (map sp_tier (star_loop (galaxy_point data N a) is h)) =
        length (replicate (length is) (Num 2 :: jsnum))"
    by (simp add: length_star_loop)
  fix k assume "k < length (map sp_tier (star_loop (galaxy_point data N a) is h))"
  then have k: "k < length is" by (simp add: length_star_loop)
  then obtain h' where
    p: "star_loop (galaxy_point data N a) is h ! k = fst (galaxy_point data N a (is ! k) h')"
    using nth_star_loop by blast
  have "freq (data ! ((is ! k) mod length data)) = NaN"
    using assms by simp
  then have "sp_tier (fst (galaxy_point data N a (is ! k) h')) = Num 2"
    by (rule galaxy_point_tier_NaN)
  with k p show "map sp_tier (star_loop (galaxy_point data N a) is h) ! k =
                 replicate (length is) (Num 2) ! k"
    by (simp add: length_star_loop)
qed

lemma createGalaxy_tiers_NaN:
  assumes "data \<noteq> []" and "\<forall>nd \<in> set data. freq nd = NaN"
  shows "shapeTiers (the (stars (createGalaxyFromNeuralMap this data))) =
           replicate (min 4000 (max 900 (length data * 10))) (Num 2)"
  using assms(1) galaxy_tiers_NaN [OF assms]
  by (simp add: createGalaxyFromNeuralMap_def Let_def case_prod_beta commitStars_def)
section \<open>The store and the random stream of the structure generator\<close>

text \<open>
  With the store passed along, every function of the generator computes what its
  state-passing form computes, on the value of \<open>h\<close> at the closure's address, and changes
  the store at that address only.
\<close>

lemma seededRandom_st_eq:
  "seededRandom_st seed s =
     (fresh s, \<lparr>vars = (vars s)(fresh s := seededRandom seed), fresh = Suc (fresh s)\<rparr>)"
proof -
  have "foldl (\<lambda>s c. s\<lparr>vars := (vars s)(a := 31 * vars s a + of_nat (of_char c))\<rparr>)
          \<lparr>vars = (vars s)(a := h), fresh = Suc a\<rparr> seed =
        \<lparr>vars = (vars s)(a := foldl (\<lambda>h c. 31 * h + of_nat (of_char c)) h seed), fresh = Suc a\<rparr>"
    for a h
    by (induction seed arbitrary: h) simp_all
  then show ?thesis by (simp add: seededRandom_st_def seededRandom_def Let_def)
qed

lemma rand_st_eq:
  "rand_st rnd s = (fst (rand (vars s rnd)), s\<lparr>vars := (vars s)(rnd := snd (rand (vars s rnd)))\<rparr>)"
  by (simp add: rand_st_def rand_def Let_def next_state_def unit_of_def)

lemma make_node_st_eq:
  "make_node_st data nc step i rnd s =
     (fst (make_node data nc step i (vars s rnd)),
      s\<lparr>vars := (vars s)(rnd := snd (make_node data nc step i (vars s rnd)))\<rparr>)"
  by (simp add: make_node_st_def make_node_def rand_st_eq Let_def case_prod_beta)

lemma build_nodes_st_eq:
  "build_nodes_st data nc step is rnd s =
     (fst (build_nodes data nc step is (vars s rnd)),
      s\<lparr>vars := (vars s)(rnd := snd (build_nodes data nc step is (vars s rnd)))\<rparr>)"
  by (induction "is" arbitrary: s) (simp_all add: make_node_st_eq Let_def case_prod_beta)

lemma connect_row_st_eq:
  "connect_row_st nodes i js rnd s =
     (fst (connect_row nodes i js (vars s rnd)),
      s\<lparr>vars := (vars s)(rnd := snd (connect_row nodes i js (vars s rnd)))\<rparr>)"
  by (induction js arbitrary: s) (auto simp: rand_st_eq Let_def case_prod_beta)

lemma connect_all_st_eq:
  "connect_all_st nodes is rnd s =
     (fst (connect_all nodes is (vars s rnd)),
      s\<lparr>vars := (vars s)(rnd := snd (connect_all nodes is (vars s rnd)))\<rparr>)"
  by (induction "is" arbitrary: nodes s) (simp_all add: connect_row_st_eq Let_def case_prod_beta)


text \<open>
  The draws of a call, by their position in the stream: node \<open>i\<close> takes the draws
  \<open>2 i + 1\<close> (for \<open>x\<close>) and \<open>2 i + 2\<close> (for \<open>z\<close>); the connection loop takes one draw for
  each near pair, row by row.
\<close>

lemma rand_fst: "fst (rand h) = Num (unit_of (next_state h))"
  by (simp add: rand_def Let_def)

lemma rand_snd: "snd (rand h) = next_state h"
  by (simp add: rand_def Let_def)

lemma make_node_state: "snd (make_node data nc step i h) = next_state (next_state h)"
  by (simp add: make_node_def Let_def case_prod_beta rand_snd)

lemma make_node_position:
  "vx (position (fst (make_node data nc step i h))) =
     (Num (real i) / Num (real nc) - Num 0.5) * Num 40 +
     (Num (unit_of (next_state h)) - Num 0.5) * Num 10"
  "vy (position (fst (make_node data nc step i h))) =
     (maxAbs (slice_of data step i) - Num 0.5) * Num 80 +
     Math_sin (extractDominantFrequency (slice_of data step i) * Num 0.1) * Num 20"
  "vz (position (fst (make_node data nc step i h))) =
     (Num (unit_of (next_state (next_state h))) - Num 0.5) * Num 30 +
     Math_cos (Num (real i) * Num 0.001) * Num 10"
  "hue (fst (make_node data nc step i h)) =
     js_rem (Num (real i) / Num (real nc) + maxAbs (slice_of data step i)) (Num 1)"
  by (simp_all add: make_node_def Let_def case_prod_beta rand_snd rand_fst)

lemma build_nodes_state:
  "snd (build_nodes data nc step is h) = (next_state ^^ (2 * length is)) h"
proof (induction "is" arbitrary: h)
  case Nil
  then show ?case by simp
next
  case (Cons i "is")
  have "snd (build_nodes data nc step (i # is) h) =
      (next_state ^^ (2 * length is)) (next_state (next_state h))"
    by (simp only: build_nodes_Cons snd_conv Cons.IH make_node_state)
  also have "\<dots> = (next_state ^^ (2 * length (i # is))) h"
    by (simp add: funpow_swap1)
  finally show ?case .
qed

lemma nth_build_nodes_state:
  "k < length is \<Longrightarrow>
   fst (build_nodes data nc step is h) ! k =
     fst (make_node data nc step (is ! k) ((next_state ^^ (2 * k)) h))"
proof (induction "is" arbitrary: h k)
  case Nil
  then show ?case by simp
next
  case (Cons i "is")
  show ?case
  proof (cases k)
    case 0
    then show ?thesis by (simp add: build_nodes_Cons del: build_nodes.simps(2))
  next
    case (Suc k')
    with Cons.prems have "k' < length is" by simp
    from Cons.IH [OF this, of "snd (make_node data nc step i h)"] Suc show ?thesis
      by (simp add: build_nodes_Cons make_node_state funpow_swap1 del: build_nodes.simps(2))
  qed
qed

lemma connect_row_skip:
  "\<not> near nodes i j \<Longrightarrow> connect_row nodes i (j # js) h = connect_row nodes i js h"
  by (auto simp: near_def)

lemma connect_row_draw:
  "near nodes i j \<Longrightarrow> connect_row nodes i (j # js) h =
     ((if js_lt (Num (unit_of (next_state h))) (Num 0.7) then [j] else []) @
         fst (connect_row nodes i js (next_state h)),
      snd (connect_row nodes i js (next_state h)))"
  by (simp add: near_def Let_def case_prod_beta rand_fst rand_snd)

lemma connect_row_upt:
  "connect_row nodes i [a..<b] h =
     (filter (\<lambda>j. near nodes i j \<and>
         js_lt (Num (unit_of ((next_state ^^ Suc (length (filter (near nodes i) [a..<j]))) h)))
           (Num 0.7)) [a..<b],
      (next_state ^^ length (filter (near nodes i) [a..<b])) h)"
proof (induction "b - a" arbitrary: a h)
  case 0
  then show ?case by simp
next
  case (Suc d)
  let ?P = "\<lambda>a h j. near nodes i j \<and>
     js_lt (Num (unit_of ((next_state ^^ Suc (length (filter (near nodes i) [a..<j]))) h))) (Num 0.7)"
  from Suc have ab: "a < b" and d: "d = b - Suc a" by simp_all
  have upt: "[a..<b] = a # [Suc a..<b]" using ab by (rule upt_conv_Cons)
  have upj: "[a..<j] = a # [Suc a..<j]" if "j \<in> set [Suc a..<b]" for j
    using that by (intro upt_conv_Cons) simp
  have IH: "connect_row nodes i [Suc a..<b] h' =
     (filter (?P (Suc a) h') [Suc a..<b],
      (next_state ^^ length (filter (near nodes i) [Suc a..<b])) h')" for h'
    by (rule Suc.hyps(1) [OF d])
  show ?case
  proof (cases "near nodes i a")
    case False
    have c: "connect_row nodes i [a..<b] h = connect_row nodes i [Suc a..<b] h"
      by (subst upt) (rule connect_row_skip [OF False])
    have n: "filter (near nodes i) [a..<b] = filter (near nodes i) [Suc a..<b]"
      using False by (subst upt) simp
    have "filter (?P a h) [a..<b] = filter (?P a h) [Suc a..<b]"
      using False by (subst upt) simp
    also have "\<dots> = filter (?P (Suc a) h) [Suc a..<b]"
      by (rule filter_cong [OF refl]) (simp add: upj False del: upt_Suc)
    finally have f: "filter (?P a h) [a..<b] = filter (?P (Suc a) h) [Suc a..<b]" .
    show ?thesis by (simp only: c n f IH)
  next
    case True
    have c: "connect_row nodes i [a..<b] h =
       ((if js_lt (Num (unit_of (next_state h))) (Num 0.7) then [a] else []) @
           fst (connect_row nodes i [Suc a..<b] (next_state h)),
        snd (connect_row nodes i [Suc a..<b] (next_state h)))"
      by (subst upt) (rule connect_row_draw [OF True])
    have n: "length (filter (near nodes i) [a..<b]) =
        Suc (length (filter (near nodes i) [Suc a..<b]))"
      using True by (subst upt) simp
    have "filter (?P a h) [a..<b] =
        (if js_lt (Num (unit_of (next_state h))) (Num 0.7) then [a] else []) @
        filter (?P a h) [Suc a..<b]"
      using True by (subst upt) simp
    also have "filter (?P a h) [Suc a..<b] = filter (?P (Suc a) (next_state h)) [Suc a..<b]"
      by (rule filter_cong [OF refl]) (simp add: upj True funpow_swap1 del: upt_Suc)
    finally have f: "filter (?P a h) [a..<b] =
        (if js_lt (Num (unit_of (next_state h))) (Num 0.7) then [a] else []) @
        filter (?P (Suc a) (next_state h)) [Suc a..<b]" .
    have "(next_state ^^ Suc (length (filter (near nodes i) [Suc a..<b]))) h =
        (next_state ^^ length (filter (near nodes i) [Suc a..<b])) (next_state h)"
      by (simp add: funpow_swap1)
    then show ?thesis by (simp only: c n f IH fst_conv snd_conv)
  qed
qed


lemma position_update_connections:
  "position (nodes[k := (nodes ! k)\<lparr>connections := c\<rparr>] ! j) = position (nodes ! j)"
proof (cases "k < length nodes")
  case True
  then show ?thesis by (simp add: nth_list_update)
next
  case False
  then have "length nodes \<le> k" by simp
  then show ?thesis by (simp only: list_update_beyond)
qed

lemma near_update_connections:
  "near (nodes[k := (nodes ! k)\<lparr>connections := c\<rparr>]) = near nodes"
  by (intro ext) (simp only: near_def position_update_connections)

lemma connect_all_upt:
  assumes "length nodes = n" and "i < n"
  shows "connections (fst (connect_all nodes [a..<n] h) ! i) =
     connections (nodes ! i) @
     (if a \<le> i
      then filter (\<lambda>j. near nodes i j \<and>
             js_lt (Num (unit_of ((next_state ^^
                (sum_list (map (\<lambda>i'. length (filter (near nodes i') [0..<n])) [a..<i]) +
                 Suc (length (filter (near nodes i) [0..<j])))) h))) (Num 0.7)) [0..<n]
      else [])"
  using assms
proof (induction "n - a" arbitrary: a nodes h)
  case 0
  then show ?case by simp
next
  case (Suc d)
  let ?rc = "\<lambda>i'. length (filter (near nodes i') [0..<n])"
  let ?row = "\<lambda>i k h. filter (\<lambda>j. near nodes i j \<and>
       js_lt (Num (unit_of ((next_state ^^ (k + Suc (length (filter (near nodes i) [0..<j])))) h)))
         (Num 0.7)) [0..<n]"
  from Suc.hyps(2) have an: "a < n" and d: "d = n - Suc a" by simp_all
  have upt: "[a..<n] = a # [Suc a..<n]" using an by (rule upt_conv_Cons)
  define cs where "cs = ?row a 0 h"
  define h1 where "h1 = (next_state ^^ ?rc a) h"
  define nodes' where "nodes' = nodes[a := (nodes ! a)\<lparr>connections := connections (nodes ! a) @ cs\<rparr>]"
  have row: "connect_row nodes a [0..<length nodes] h = (cs, h1)"
    by (simp only: connect_row_upt Suc.prems(1) cs_def h1_def add_0)
  have step: "connect_all nodes [a..<n] h = connect_all nodes' [Suc a..<n] h1"
    by (subst upt) (simp only: connect_all.simps row Let_def prod.case nodes'_def)
  have len': "length nodes' = n" using Suc.prems(1) by (simp add: nodes'_def)
  have near': "near nodes' = near nodes" by (simp only: nodes'_def near_update_connections)
  have IH: "connections (fst (connect_all nodes' [Suc a..<n] h1) ! i) =
     connections (nodes' ! i) @
     (if Suc a \<le> i then ?row i (sum_list (map ?rc [Suc a..<i])) h1 else [])"
    using Suc.hyps(1) [OF d len' Suc.prems(2), of h1] by (simp only: near')
  consider "i < a" | "i = a" | "a < i" by linarith
  then show ?case
  proof cases
    case 1
    then have "nodes' ! i = nodes ! i" by (simp add: nodes'_def)
    with 1 IH show ?thesis by (simp add: step)
  next
    case 2
    then have "connections (nodes' ! i) = connections (nodes ! i) @ cs"
      using an Suc.prems(1) by (simp add: nodes'_def)
    with 2 IH show ?thesis by (simp add: step cs_def)
  next
    case 3
    then have nth: "nodes' ! i = nodes ! i" by (simp add: nodes'_def)
    have "[a..<i] = a # [Suc a..<i]" using 3 by (rule upt_conv_Cons)
    then have sum: "sum_list (map ?rc [a..<i]) = ?rc a + sum_list (map ?rc [Suc a..<i])"
      by simp
    have "(next_state ^^ (k + c)) h1 = (next_state ^^ (?rc a + k + c)) h" for k c
      by (simp add: h1_def funpow_add add_ac)
    then have "?row i (sum_list (map ?rc [Suc a..<i])) h1 = ?row i (sum_list (map ?rc [a..<i])) h"
      by (simp only: sum)
    with 3 IH nth show ?thesis by (simp add: step)
  qed
qed


lemma near_cong_positions:
  assumes "position (xs ! i) = position (ys ! i)" and "position (xs ! j) = position (ys ! j)"
  shows "near xs i j = near ys i j"
  using assms by (simp add: near_def)

lemma draws_before_cong:
  assumes len: "length xs = n" "length ys = n"
    and pos: "\<And>k. k < n \<Longrightarrow> position (xs ! k) = position (ys ! k)"
    and i: "i < n" and j: "j \<le> n"
  shows "draws_before xs i j = draws_before ys i j"
proof -
  have nr: "near xs a b = near ys a b" if "a < n" "b < n" for a b
    using that by (intro near_cong_positions pos)
  have "length (filter (near xs a) [0..<n]) = length (filter (near ys a) [0..<n])"
    if "a \<in> set [0..<i]" for a
  proof -
    from that i have "a < n" by simp
    then have "filter (near xs a) [0..<n] = filter (near ys a) [0..<n]"
      by (intro filter_cong [OF refl] nr) simp_all
    then show ?thesis by simp
  qed
  then have "map (\<lambda>a. length (filter (near xs a) [0..<n])) [0..<i] =
      map (\<lambda>a. length (filter (near ys a) [0..<n])) [0..<i]"
    by (intro map_cong [OF refl])
  moreover have "filter (near xs i) [0..<j] = filter (near ys i) [0..<j]"
    using i j by (intro filter_cong [OF refl] nr) simp_all
  ultimately show ?thesis by (simp only: draws_before_def len)
qed

lemma buildMapData_stream:
  fixes data :: "jsnum list" and d :: real and hash :: string
  assumes i: "i < nodeCount_of d"
  defines "n \<equiv> nodeCount_of d"
  defines "nodes \<equiv> buildMapData data d hash"
  shows "vx (position (nodes ! i)) =
           (Num (real i) / Num (real n) - Num 0.5) * Num 40 +
           (stream hash (2 * i + 1) - Num 0.5) * Num 10"
    and "vy (position (nodes ! i)) =
           (amp (nodes ! i) - Num 0.5) * Num 80 + Math_sin (freq (nodes ! i) * Num 0.1) * Num 20"
    and "vz (position (nodes ! i)) =
           (stream hash (2 * i + 2) - Num 0.5) * Num 30 +
           Math_cos (Num (real i) * Num 0.001) * Num 10"
    and "hue (nodes ! i) = js_rem (Num (real i) / Num (real n) + amp (nodes ! i)) (Num 1)"
    and "connections (nodes ! i) =
           filter (\<lambda>j. near nodes i j \<and>
                       js_lt (stream hash (2 * n + draws_before nodes i j + 1)) (Num 0.7))
             [0..<n]"
proof -
  define h0 where "h0 = seededRandom (if hash = [] then ''seed'' else hash)"
  define step where "step = step_of (length data) n"
  define nodes0 where "nodes0 = fst (build_nodes data n step [0..<n] h0)"
  define h1 where "h1 = snd (build_nodes data n step [0..<n] h0)"
  have eq: "nodes = fst (connect_all nodes0 [0..<n] h1)"
    by (simp add: nodes_def buildMapData_def Let_def case_prod_beta n_def step_def nodes0_def
        h1_def h0_def)
  have len0: "length nodes0 = n" by (simp add: nodes0_def length_build_nodes)
  have len: "length nodes = n" by (simp add: eq connect_all_length len0)
  have h1: "h1 = (next_state ^^ (2 * n)) h0" by (simp add: h1_def build_nodes_state)
  have nd: "nodes0 ! k = fst (make_node data n step k ((next_state ^^ (2 * k)) h0))" if "k < n" for k
    using nth_build_nodes_state [of k "[0..<n]" data n step h0] that by (simp add: nodes0_def)
  have fields: "amp (nodes ! k) = amp (nodes0 ! k) \<and> freq (nodes ! k) = freq (nodes0 ! k) \<and>
     hue (nodes ! k) = hue (nodes0 ! k) \<and> position (nodes ! k) = position (nodes0 ! k)"
    if "k < n" for k
    using connect_all_fields [of k nodes0 "[0..<n]" h1] that by (simp add: eq len0)
  have st: "stream hash k = Num (unit_of ((next_state ^^ k) h0))" for k
    by (simp add: stream_def h0_def)
  have in': "i < n" using i by (simp add: n_def)
  show "vx (position (nodes ! i)) =
      (Num (real i) / Num (real n) - Num 0.5) * Num 40 + (stream hash (2 * i + 1) - Num 0.5) * Num 10"
    using fields [OF in'] nd [OF in'] by (simp add: make_node_position st)
  show "vy (position (nodes ! i)) =
      (amp (nodes ! i) - Num 0.5) * Num 80 + Math_sin (freq (nodes ! i) * Num 0.1) * Num 20"
    using fields [OF in'] nd [OF in'] by (simp add: make_node_position make_node_fields)
  show "vz (position (nodes ! i)) =
      (stream hash (2 * i + 2) - Num 0.5) * Num 30 + Math_cos (Num (real i) * Num 0.001) * Num 10"
    using fields [OF in'] nd [OF in'] by (simp add: make_node_position st)
  show "hue (nodes ! i) = js_rem (Num (real i) / Num (real n) + amp (nodes ! i)) (Num 1)"
    using fields [OF in'] nd [OF in'] by (simp add: make_node_position make_node_fields)
  have c0: "connections (nodes0 ! i) = []" using nd [OF in'] by (simp add: make_node_fields)
  have pos: "position (nodes ! k) = position (nodes0 ! k)" if "k < n" for k
    using fields [OF that] by simp
  have "connections (nodes ! i) =
     filter (\<lambda>j. near nodes0 i j \<and>
             js_lt (Num (unit_of ((next_state ^^
                (sum_list (map (\<lambda>i'. length (filter (near nodes0 i') [0..<n])) [0..<i]) +
                 Suc (length (filter (near nodes0 i) [0..<j])))) h1))) (Num 0.7)) [0..<n]"
    using connect_all_upt [OF len0 in', of 0 h1] c0 by (simp add: eq)
  also have "\<dots> = filter (\<lambda>j. near nodes i j \<and>
                       js_lt (stream hash (2 * n + draws_before nodes i j + 1)) (Num 0.7)) [0..<n]"
  proof (rule filter_cong [OF refl])
    fix j assume "j \<in> set [0..<n]"
    then have j: "j < n" by simp
    have nr: "near nodes i j = near nodes0 i j"
      using pos [OF in'] pos [OF j] by (rule near_cong_positions)
    have "draws_before nodes i j = draws_before nodes0 i j"
      using len len0 pos in' j by (intro draws_before_cong [where n = n]) simp_all
    then have db: "draws_before nodes i j =
        sum_list (map (\<lambda>i'. length (filter (near nodes0 i') [0..<n])) [0..<i]) +
        length (filter (near nodes0 i) [0..<j])"
      by (simp add: draws_before_def len0)
    have "(next_state ^^ (m + Suc c)) h1 = (next_state ^^ (2 * n + (m + c) + 1)) h0" for m c
      by (simp add: h1 funpow_add add_ac)
    then show "(near nodes0 i j \<and>
             js_lt (Num (unit_of ((next_state ^^
                (sum_list (map (\<lambda>i'. length (filter (near nodes0 i') [0..<n])) [0..<i]) +
                 Suc (length (filter (near nodes0 i) [0..<j])))) h1))) (Num 0.7)) =
         (near nodes i j \<and> js_lt (stream hash (2 * n + draws_before nodes i j + 1)) (Num 0.7))"
      by (simp only: nr db st)
  qed
  finally show "connections (nodes ! i) =
     filter (\<lambda>j. near nodes i j \<and>
                 js_lt (stream hash (2 * n + draws_before nodes i j + 1)) (Num 0.7)) [0..<n]" .
qed

lemma buildMapDataFromAudio_st_eq:
  assumes "getChannelData b 0 = Some data"
  shows "\<exists>h. buildMapDataFromAudio_st b hash s =
     (Some (buildMapData data (duration b) hash),
      \<lparr>vars = (vars s)(fresh s := h), fresh = Suc (fresh s)\<rparr>)"
  using assms
  by (auto simp: buildMapDataFromAudio_st_def buildMapData_def seededRandom_st_eq
      build_nodes_st_eq connect_all_st_eq Let_def case_prod_beta)

lemma buildMapDataFromAudio_st_raise:
  "getChannelData b 0 = None \<Longrightarrow> buildMapDataFromAudio_st b hash s = (None, s)"
  by (simp add: buildMapDataFromAudio_st_def)


section \<open>Determinism and node count of the structure generator\<close>

lemma length_buildNet:
  "length (nm_nodes (buildNet (clearNetwork this) data d)) = nodeCount_of d"
  by (simp add: buildNet_def clearNetwork_def Let_def case_prod_beta forEach_outer_fields
      length_push_meshes)

text \<open>
  Claim C1. Two calls of \<open>buildMapDataFromAudio\<close>, made in any two stores \<open>s1\<close> and \<open>s2\<close>
  (for instance the second in the store that the first has left) on buffers with the same
  channel-0 samples and the same duration, with the same seed, return the same node list:
  the same count and, index by index, the same id, position, amp, freq, hue and connection
  list. A call binds one new variable and changes no variable that existed before, so
  nothing of a call reaches another. The result is the one of the state-passing form of
  the generator, and every number in it is fixed by the samples, the duration and the
  stream of the seed: node \<open>i\<close> takes its \<open>x\<close> from draw \<open>2 i + 1\<close> and its \<open>z\<close> from draw
  \<open>2 i + 2\<close>, and it is connected to exactly the near nodes \<open>j\<close>, in increasing order, whose
  draw, the one after the \<open>2 n\<close> draws of the nodes and the draws of the near pairs met
  before \<open>(i, j)\<close>, is below \<open>0.7\<close>.
\<close>

theorem buildMapDataFromAudio_deterministic:
  fixes b1 b2 :: AudioBuffer and hash :: string and s1 s2 :: Store and data :: "jsnum list"
  assumes "getChannelData b1 0 = Some data" and "getChannelData b2 0 = Some data"
    and "duration b1 = duration b2"
  defines "n \<equiv> nodeCount_of (duration b1)"
  defines "step \<equiv> step_of (length data) n"
  shows "\<exists>nodes s1' s2'.
     buildMapDataFromAudio_st b1 hash s1 = (Some nodes, s1') \<and>
     buildMapDataFromAudio_st b2 hash s2 = (Some nodes, s2') \<and>
     buildMapDataFromAudio b1 hash = Some nodes \<and>
     fresh s1' = Suc (fresh s1) \<and> (\<forall>a. a \<noteq> fresh s1 \<longrightarrow> vars s1' a = vars s1 a) \<and>
     fresh s2' = Suc (fresh s2) \<and> (\<forall>a. a \<noteq> fresh s2 \<longrightarrow> vars s2' a = vars s2 a) \<and>
     length nodes = n \<and>
     (\<forall>i<n. node_id (nodes ! i) = i \<and>
        amp (nodes ! i) = maxAbs (slice_of data step i) \<and>
        freq (nodes ! i) = extractDominantFrequency (slice_of data step i) \<and>
        vx (position (nodes ! i)) =
          (Num (real i) / Num (real n) - Num 0.5) * Num 40 +
          (stream hash (2 * i + 1) - Num 0.5) * Num 10 \<and>
        vy (position (nodes ! i)) =
          (amp (nodes ! i) - Num 0.5) * Num 80 + Math_sin (freq (nodes ! i) * Num 0.1) * Num 20 \<and>
        vz (position (nodes ! i)) =
          (stream hash (2 * i + 2) - Num 0.5) * Num 30 +
          Math_cos (Num (real i) * Num 0.001) * Num 10 \<and>
        hue (nodes ! i) = js_rem (Num (real i) / Num (real n) + amp (nodes ! i)) (Num 1) \<and>
        connections (nodes ! i) =
          filter (\<lambda>j. near nodes i j \<and>
                      js_lt (stream hash (2 * n + draws_before nodes i j + 1)) (Num 0.7))
            [0..<n])"
proof -
  define nodes where "nodes = buildMapData data (duration b1) hash"
  obtain h1 where r1: "buildMapDataFromAudio_st b1 hash s1 =
      (Some nodes, \<lparr>vars = (vars s1)(fresh s1 := h1), fresh = Suc (fresh s1)\<rparr>)"
    using buildMapDataFromAudio_st_eq [OF assms(1), of hash s1] by (auto simp: nodes_def)
  obtain h2 where r2: "buildMapDataFromAudio_st b2 hash s2 =
      (Some nodes, \<lparr>vars = (vars s2)(fresh s2 := h2), fresh = Suc (fresh s2)\<rparr>)"
    using buildMapDataFromAudio_st_eq [OF assms(2), of hash s2] assms(3) by (auto simp: nodes_def)
  have p: "buildMapDataFromAudio b1 hash = Some nodes"
    using assms(1) by (simp add: buildMapDataFromAudio_def nodes_def)
  have len: "length nodes = n" by (simp add: nodes_def n_def length_buildMapData)
  have each: "node_id (nodes ! i) = i \<and>
        amp (nodes ! i) = maxAbs (slice_of data step i) \<and>
        freq (nodes ! i) = extractDominantFrequency (slice_of data step i) \<and>
        vx (position (nodes ! i)) =
          (Num (real i) / Num (real n) - Num 0.5) * Num 40 +
          (stream hash (2 * i + 1) - Num 0.5) * Num 10 \<and>
        vy (position (nodes ! i)) =
          (amp (nodes ! i) - Num 0.5) * Num 80 + Math_sin (freq (nodes ! i) * Num 0.1) * Num 20 \<and>
        vz (position (nodes ! i)) =
          (stream hash (2 * i + 2) - Num 0.5) * Num 30 +
          Math_cos (Num (real i) * Num 0.001) * Num 10 \<and>
        hue (nodes ! i) = js_rem (Num (real i) / Num (real n) + amp (nodes ! i)) (Num 1) \<and>
        connections (nodes ! i) =
          filter (\<lambda>j. near nodes i j \<and>
                      js_lt (stream hash (2 * n + draws_before nodes i j + 1)) (Num 0.7))
            [0..<n]" if "i < n" for i
  proof -
    from that have i: "i < nodeCount_of (duration b1)" by (simp add: n_def)
    show ?thesis
      unfolding nodes_def n_def step_def
      by (intro conjI nth_buildMapData [OF i] buildMapData_stream [OF i])
  qed
  show ?thesis
    by (rule exI [where x = nodes],
        rule exI [where x = "\<lparr>vars = (vars s1)(fresh s1 := h1), fresh = Suc (fresh s1)\<rparr>"],
        rule exI [where x = "\<lparr>vars = (vars s2)(fresh s2 := h2), fresh = Suc (fresh s2)\<rparr>"])
       (use r1 r2 p len each in simp)
qed

theorem buildMapDataFromAudio_deterministic_witness:
  "getChannelData \<lparr>channelData = [[Num 0.5, Num (- 0.25)], [Num 1]], duration = 3, sampleRate = 44100\<rparr> 0 =
     Some [Num 0.5, Num (- 0.25)] \<and>
   getChannelData \<lparr>channelData = [[Num 0.5, Num (- 0.25)]], duration = 3, sampleRate = 48000\<rparr> 0 =
     Some [Num 0.5, Num (- 0.25)] \<and>
   duration \<lparr>channelData = [[Num 0.5, Num (- 0.25)], [Num 1]], duration = 3, sampleRate = 44100\<rparr> =
     duration \<lparr>channelData = [[Num 0.5, Num (- 0.25)]], duration = 3, sampleRate = 48000\<rparr> \<and>
   fst (buildMapDataFromAudio_st
      \<lparr>channelData = [[Num 0.5, Num (- 0.25)], [Num 1]], duration = 3, sampleRate = 44100\<rparr> ''1f3a''
      \<lparr>vars = \<lambda>a. 0, fresh = 0\<rparr>) =
   fst (buildMapDataFromAudio_st
      \<lparr>channelData = [[Num 0.5, Num (- 0.25)]], duration = 3, sampleRate = 48000\<rparr> ''1f3a''
      (snd (buildMapDataFromAudio_st
        \<lparr>channelData = [[Num 0.5, Num (- 0.25)], [Num 1]], duration = 3, sampleRate = 44100\<rparr> ''1f3a''
        \<lparr>vars = \<lambda>a. 0, fresh = 0\<rparr>))) \<and>
   length (the (fst (buildMapDataFromAudio_st
      \<lparr>channelData = [[Num 0.5, Num (- 0.25)], [Num 1]], duration = 3, sampleRate = 44100\<rparr> ''1f3a''
      \<lparr>vars = \<lambda>a. 0, fresh = 0\<rparr>))) = 50 \<and>
   amp (the (fst (buildMapDataFromAudio_st
      \<lparr>channelData = [[Num 0.5, Num (- 0.25)], [Num 1]], duration = 3, sampleRate = 44100\<rparr> ''1f3a''
      \<lparr>vars = \<lambda>a. 0, fresh = 0\<rparr>)) ! 1) = Num 0.25"
proof -
  let ?b1 = "\<lparr>channelData = [[Num 0.5, Num (- 0.25)], [Num 1]], duration = 3, sampleRate = 44100\<rparr>"
  let ?b2 = "\<lparr>channelData = [[Num 0.5, Num (- 0.25)]], duration = 3, sampleRate = 48000\<rparr>"
  let ?s = "\<lparr>vars = \<lambda>a. 0, fresh = 0\<rparr>"
  have c1: "getChannelData ?b1 0 = Some [Num 0.5, Num (- 0.25)]" by (simp add: getChannelData_def)
  have c2: "getChannelData ?b2 0 = Some [Num 0.5, Num (- 0.25)]" by (simp add: getChannelData_def)
  have d: "duration ?b1 = duration ?b2" by simp
  have n: "nodeCount_of (duration ?b1) = 50" by (simp add: nodeCount_of_le_5)
  from buildMapDataFromAudio_deterministic [OF c1 c2 d, of "''1f3a''" ?s
      "snd (buildMapDataFromAudio_st ?b1 ''1f3a'' ?s)"]
  obtain nodes s1' s2' where
    r1: "buildMapDataFromAudio_st ?b1 ''1f3a'' ?s = (Some nodes, s1')" and
    r2: "buildMapDataFromAudio_st ?b2 ''1f3a'' (snd (buildMapDataFromAudio_st ?b1 ''1f3a'' ?s)) =
       (Some nodes, s2')" and
    len: "length nodes = nodeCount_of (duration ?b1)" and
    each: "\<forall>i<nodeCount_of (duration ?b1).
        amp (nodes ! i) = maxAbs (slice_of [Num 0.5, Num (- 0.25)]
           (step_of (length [Num 0.5, Num (- 0.25)]) (nodeCount_of (duration ?b1))) i)"
    by blast
  have "amp (nodes ! 1) = Num 0.25"
    using each n by (simp add: step_of_def slice_of_def subarray_def maxAbs_def js_gt_def)
  with c1 c2 r1 r2 len n show ?thesis by simp
qed



section \<open>The slices of the sample sequence\<close>

lemma step_of_ge: "n \<le> len \<Longrightarrow> 0 < n \<Longrightarrow> step_of len n = len div n"
  by (simp add: step_of_def max_def Suc_le_eq div_greater_zero_iff)

lemma step_of_lt: "len < n \<Longrightarrow> step_of len n = 1"
  by (simp add: step_of_def)

lemma slices_full_length:
  assumes "n \<le> length data" "0 < n" "i < n"
  shows "length (slice_of data (step_of (length data) n) i) = step_of (length data) n"
proof -
  let ?s = "length data div n"
  have "Suc i \<le> n" using assms(3) by simp
  then have "Suc i * ?s \<le> n * ?s" by (rule mult_le_mono1)
  also have "\<dots> \<le> length data" by (simp add: mult.commute)
  finally have "i * ?s + ?s \<le> length data" by simp
  then show ?thesis
    using assms by (simp add: length_slice_of step_of_ge)
qed

lemma slices_short_length:
  assumes "length data < n"
  shows "length (slice_of data (step_of (length data) n) i) = (if i < length data then 1 else 0)"
  using assms by (simp add: length_slice_of step_of_lt)

lemma take_one_drop: "i < length xs \<Longrightarrow> take 1 (drop i xs) = [xs ! i]"
proof -
  assume "i < length xs"
  then have "drop i xs = xs ! i # drop (Suc i) xs" by (rule Cons_nth_drop_Suc [symmetric])
  then show ?thesis by simp
qed


lemma maxAbs_zero: "maxAbs [Num 0] = Num 0"
  by (simp add: maxAbs_def js_gt_def)

text \<open>
  Claim C4, as the code has it. With \<open>n\<close> the node count and
  \<open>step = max(1, floor(len / n))\<close>, slice \<open>i\<close> is the window of at most \<open>step\<close> samples that
  starts at \<open>i * step\<close>; the slices are contiguous and disjoint and together are the first
  \<open>n * step\<close> samples (or all of them, when there are fewer), and node \<open>i\<close> of either
  generator takes its amplitude and its zero-crossing rate from slice \<open>i\<close>. When there are at least \<open>n\<close> samples
  every slice has exactly \<open>step\<close> samples and the last \<open>len mod n\<close> samples belong to no
  slice; when there are fewer than \<open>n\<close> samples, slice \<open>i\<close> holds one sample for \<open>i < len\<close>
  and is empty otherwise.
\<close>

theorem slices_cover_prefix:
  fixes buffer :: AudioBuffer and data :: "jsnum list" and n step :: nat
  defines "n \<equiv> nodeCount_of (duration buffer)"
  defines "step \<equiv> step_of (length data) n"
  assumes ch: "getChannelData buffer 0 = Some data"
  shows "\<exists>nodes net. buildMapDataFromAudio buffer seed = Some nodes \<and> length nodes = n \<and>
           buildNetFromAudio (clearNetwork this) buffer = Some net \<and> length (nm_nodes net) = n \<and>
           concat (map (slice_of data step) [0..<n]) = take (n * step) data \<and>
           (\<forall>i<n. slice_of data step i = take step (drop (i * step) data) \<and>
                  amp (nodes ! i) = maxAbs (slice_of data step i) \<and>
                  freq (nodes ! i) = extractDominantFrequency (slice_of data step i) \<and>
                  ud_amp (userData (nm_nodes net ! i)) = NeuralMap_maxAbs (slice_of data step i) \<and>
                  ud_freq (userData (nm_nodes net ! i)) =
                    extractDominantFrequency (slice_of data step i)) \<and>
           (n \<le> length data \<longrightarrow>
              (\<forall>i<n. length (slice_of data step i) = step) \<and>
              n * step + length data mod n = length data) \<and>
           (length data < n \<longrightarrow>
              take (n * step) data = data \<and>
              (\<forall>i<n. length (slice_of data step i) = (if i < length data then 1 else 0)))"
proof -
  have n: "0 < n" using nodeCount_of_bounds [of "duration buffer"] by (simp add: n_def)
  have full: "n \<le> length data \<Longrightarrow> n * step + length data mod n = length data"
    using n by (simp add: step_def step_of_ge)
  have short: "length data < n \<Longrightarrow> take (n * step) data = data"
    by (simp add: step_def step_of_lt)
  have ret: "buildMapDataFromAudio buffer seed = Some (buildMapData data (duration buffer) seed)"
    using ch by (simp add: buildMapDataFromAudio_def)
  have len: "length (buildMapData data (duration buffer) seed) = n"
    by (simp add: length_buildMapData n_def)
  have ret': "buildNetFromAudio (clearNetwork this) buffer =
      Some (buildNet (clearNetwork this) data (duration buffer))"
    using ch by (simp add: buildNetFromAudio_def)
  have len': "length (nm_nodes (buildNet (clearNetwork this) data (duration buffer))) = n"
    by (simp add: length_buildNet n_def)
  have cover: "concat (map (slice_of data step) [0..<n]) = take (n * step) data"
    by (rule concat_slices)
  have each: "\<forall>i<n. slice_of data step i = take step (drop (i * step) data) \<and>
      amp (buildMapData data (duration buffer) seed ! i) = maxAbs (slice_of data step i) \<and>
      freq (buildMapData data (duration buffer) seed ! i) =
        extractDominantFrequency (slice_of data step i) \<and>
      ud_amp (userData (nm_nodes (buildNet (clearNetwork this) data (duration buffer)) ! i)) =
        NeuralMap_maxAbs (slice_of data step i) \<and>
      ud_freq (userData (nm_nodes (buildNet (clearNetwork this) data (duration buffer)) ! i)) =
        extractDominantFrequency (slice_of data step i)"
    by (simp add: slice_of_take_drop [symmetric] nth_buildMapData nth_buildNet n_def step_def)
  have fullen: "n \<le> length data \<Longrightarrow> \<forall>i<n. length (slice_of data step i) = step"
    using n by (simp add: step_def slices_full_length)
  have shortlen: "length data < n \<Longrightarrow>
      \<forall>i<n. length (slice_of data step i) = (if i < length data then 1 else 0)"
    unfolding step_def by (intro allI impI, rule slices_short_length)
  show ?thesis
    using ret len ret' len' cover each full fullen short shortlen by blast
qed

theorem slices_cover_prefix_witness:
  "getChannelData \<lparr>channelData = [[Num 0.5, Num (- 1)]], duration = 0, sampleRate = 44100\<rparr> 0 =
     Some [Num 0.5, Num (- 1)] \<and>
   length (the (buildMapDataFromAudio
     \<lparr>channelData = [[Num 0.5, Num (- 1)]], duration = 0, sampleRate = 44100\<rparr> ''0'')) = 50 \<and>
   amp (the (buildMapDataFromAudio
     \<lparr>channelData = [[Num 0.5, Num (- 1)]], duration = 0, sampleRate = 44100\<rparr> ''0'') ! 1) = Num 1 \<and>
   freq (the (buildMapDataFromAudio
     \<lparr>channelData = [[Num 0.5, Num (- 1)]], duration = 0, sampleRate = 44100\<rparr> ''0'') ! 1) = Num 0"
proof -
  let ?b = "\<lparr>channelData = [[Num 0.5, Num (- 1)]], duration = 0, sampleRate = 44100\<rparr>"
  let ?data = "[Num 0.5, Num (- 1)]"
  have ch: "getChannelData ?b 0 = Some ?data" by (simp add: getChannelData_def)
  have step: "step_of (length ?data) (nodeCount_of (duration ?b)) = 1"
    by (simp add: step_of_def nodeCount_of_0)
  have sl: "slice_of ?data 1 1 = [Num (- 1)]" by (simp add: slice_of_def subarray_def)
  have m: "maxAbs [Num (- 1)] = Num 1" by (simp add: maxAbs_def js_gt_def)
  have z: "extractDominantFrequency [Num (- 1)] = Num 0"
    by (simp add: extractDominantFrequency_def)
  from slices_cover_prefix [OF ch, of "''0''" "\<lparr>nm_nodes = [], nm_connections = [], audioHash = ''0''\<rparr>"]
  obtain nodes net where
    n: "buildMapDataFromAudio ?b ''0'' = Some nodes" "length nodes = nodeCount_of (duration ?b)"
    and each: "\<forall>i<nodeCount_of (duration ?b).
        amp (nodes ! i) = maxAbs (slice_of ?data (step_of (length ?data) (nodeCount_of (duration ?b))) i) \<and>
        freq (nodes ! i) = extractDominantFrequency
           (slice_of ?data (step_of (length ?data) (nodeCount_of (duration ?b))) i)"
    by blast
  have "(1::nat) < nodeCount_of (duration ?b)" by (simp add: nodeCount_of_0)
  with each have "amp (nodes ! 1) = maxAbs (slice_of ?data 1 1) \<and>
      freq (nodes ! 1) = extractDominantFrequency (slice_of ?data 1 1)"
    unfolding step by blast
  then have "amp (nodes ! 1) = Num 1 \<and> freq (nodes ! 1) = Num 0"
    by (simp only: sl m z)
  with n ch show ?thesis by (simp add: nodeCount_of_0)
qed

text \<open>
  Claim C4 as stated fails: with 51 samples and 50 nodes the step is 1, the 50 slices hold
  the first 50 samples, the last slice has the full step, and the 51st sample, the only
  non-zero one, reaches no node.
\<close>

theorem slices_cover_counterexample:
  "concat (map (slice_of (replicate 50 (Num 0) @ [Num 1]) (step_of 51 (nodeCount_of 0)))
       [0..<nodeCount_of 0]) \<noteq> replicate 50 (Num 0) @ [Num 1] \<and>
   length (slice_of (replicate 50 (Num 0) @ [Num 1]) (step_of 51 (nodeCount_of 0)) 49) =
     step_of 51 (nodeCount_of 0) \<and>
   map amp (the (buildMapDataFromAudio
       \<lparr>channelData = [replicate 50 (Num 0) @ [Num 1]], duration = 0, sampleRate = 44100\<rparr> ''0'')) =
     replicate 50 (Num 0)"
proof -
  let ?data = "replicate 50 (Num 0) @ [Num 1]"
  let ?b = "\<lparr>channelData = [?data], duration = 0, sampleRate = 44100\<rparr>"
  have step: "step_of 51 50 = 1"
    by (simp add: step_of_def)
  have "length (concat (map (slice_of ?data 1) [0..<50])) = 50"
    by (simp add: concat_slices)
  then have a: "concat (map (slice_of ?data 1) [0..<50]) \<noteq> ?data"
    by (metis length_append_singleton length_replicate n_not_Suc_n)
  have b: "length (slice_of ?data 1 49) = 1"
    by (simp add: length_slice_of)
  have sl: "slice_of ?data 1 i = [Num 0]" if "i < 50" for i
  proof -
    have "slice_of ?data 1 i = take 1 (drop i ?data)"
      by (simp add: slice_of_take_drop)
    also have "\<dots> = [?data ! i]"
      by (rule take_one_drop) (use that in simp)
    also have "\<dots> = [Num 0]" using that by (simp add: nth_append)
    finally show ?thesis .
  qed
  have ret: "the (buildMapDataFromAudio ?b ''0'') = buildMapData ?data 0 ''0''"
    by (simp add: buildMapDataFromAudio_def getChannelData_def)
  have c: "map amp (buildMapData ?data 0 ''0'') = replicate 50 (Num 0)"
  proof (rule nth_equalityI)
    show "length (map amp (buildMapData ?data 0 ''0'')) = length (replicate 50 (Num 0 :: jsnum))"
      by (simp add: length_buildMapData nodeCount_of_0)
    fix i assume "i < length (map amp (buildMapData ?data 0 ''0''))"
    then have i: "i < 50" by (simp add: length_buildMapData nodeCount_of_0)
    then have "amp (buildMapData ?data 0 ''0'' ! i) = maxAbs (slice_of ?data 1 i)"
      using nth_buildMapData(1) [of i 0 ?data "''0''"] by (simp add: nodeCount_of_0 step_of_def)
    also have "\<dots> = Num 0" by (simp only: sl [OF i] maxAbs_zero)
    finally show "map amp (buildMapData ?data 0 ''0'') ! i = replicate 50 (Num 0) ! i"
      using i by (simp add: length_buildMapData nodeCount_of_0)
  qed
  show ?thesis
    using a b c by (simp add: nodeCount_of_0 step ret)
qed
section \<open>The smoothing caches and the fallback structure\<close>

lemma createGalaxy_50:
  "length data = 50 \<Longrightarrow> length (positions (the (stars (createGalaxyFromNeuralMap this data)))) div 3 = 900"
  using createGalaxy_count [of this data] by auto

lemma steady_frame_phi:
  assumes "updateStars_active this" "phiCache this = None"
    "length (positions (the (stars this))) div 3 = n"
  shows "phiCache (updateStars_caches this
            \<lparr>phiTarget = \<lambda>i. Num 1, rTarget = \<lambda>i. Num 100, aPhi = Num (1/2), aR = Num (1/2)\<rparr>) =
         Some (replicate n (Num (1/2)))"
proof -
  have "map (\<lambda>i. ensureCache None n ! i + (Num 1 - ensureCache None n ! i) * Num (1/2)) [0..<n] =
        map (\<lambda>i. Num (1/2)) [0..<n]"
    by (rule map_cong) (simp_all add: ensureCache_def minus_jsnum_def)
  then show ?thesis
    using assms by (simp add: updateStars_caches_phi(1) map_replicate_const)
qed

text \<open>
  Claim C9, as the code has it. A deformation pass that runs leaves both caches with one
  entry per point, each entry computed from the entry that \<open>ensureCache\<close> supplies for the
  same index; \<open>ensureCache\<close> keeps a cache whose length is the point count and replaces any
  other by zeros; and a rebuild of the structure leaves both caches as they are.
\<close>

theorem caches_follow_point_count:
  "(updateStars_active this \<longrightarrow>
      length (the (phiCache (updateStars_caches this F))) = length (positions (the (stars this))) div 3 \<and>
      length (the (rCache (updateStars_caches this F))) = length (positions (the (stars this))) div 3 \<and>
      (\<forall>i < length (positions (the (stars this))) div 3.
         the (phiCache (updateStars_caches this F)) ! i =
           ensureCache (phiCache this) (length (positions (the (stars this))) div 3) ! i
           + (phiTarget F i - ensureCache (phiCache this) (length (positions (the (stars this))) div 3) ! i)
             * aPhi F \<and>
         the (rCache (updateStars_caches this F)) ! i =
           ensureCache (rCache this) (length (positions (the (stars this))) div 3) ! i
           + (rTarget F i - ensureCache (rCache this) (length (positions (the (stars this))) div 3) ! i)
             * aR F)) \<and>
   length (ensureCache c count) = count \<and>
   ensureCache c count =
     (if c \<noteq> None \<and> length (the c) = count then the c else replicate count (Num 0)) \<and>
   phiCache (createGalaxyFromNeuralMap this data) = phiCache this \<and>
   rCache (createGalaxyFromNeuralMap this data) = rCache this"
proof -
  have a: "updateStars_active this \<Longrightarrow>
      length (the (phiCache (updateStars_caches this F))) = length (positions (the (stars this))) div 3 \<and>
      length (the (rCache (updateStars_caches this F))) = length (positions (the (stars this))) div 3 \<and>
      (\<forall>i < length (positions (the (stars this))) div 3.
         the (phiCache (updateStars_caches this F)) ! i =
           ensureCache (phiCache this) (length (positions (the (stars this))) div 3) ! i
           + (phiTarget F i - ensureCache (phiCache this) (length (positions (the (stars this))) div 3) ! i)
             * aPhi F \<and>
         the (rCache (updateStars_caches this F)) ! i =
           ensureCache (rCache this) (length (positions (the (stars this))) div 3) ! i
           + (rTarget F i - ensureCache (rCache this) (length (positions (the (stars this))) div 3) ! i)
             * aR F)"
    by (simp add: updateStars_caches_phi)
  have b: "ensureCache c count =
     (if c \<noteq> None \<and> length (the c) = count then the c else replicate count (Num 0))"
    by (auto simp: ensureCache_def split: option.splits)
  show ?thesis
    using a b length_ensureCache [of c count] createGalaxy_caches [of this data]
    by blast
qed

theorem caches_follow_point_count_witness:
  "updateStars_active (createGalaxyFromNeuralMap (NeuralGalaxy_new DEFAULTS (Some ''a'')) []) \<and>
   length (the (phiCache (updateStars_caches
       (createGalaxyFromNeuralMap (NeuralGalaxy_new DEFAULTS (Some ''a'')) [])
       \<lparr>phiTarget = \<lambda>i. Num 1, rTarget = \<lambda>i. Num 100, aPhi = Num (1/2), aR = Num (1/2)\<rparr>))) = 900 \<and>
   the (phiCache (updateStars_caches
       (createGalaxyFromNeuralMap (NeuralGalaxy_new DEFAULTS (Some ''a'')) [])
       \<lparr>phiTarget = \<lambda>i. Num 1, rTarget = \<lambda>i. Num 100, aPhi = Num (1/2), aR = Num (1/2)\<rparr>)) ! 7 = Num (1/2) \<and>
   ensureCache (Some [Num 1]) 2 = [Num 0, Num 0] \<and>
   phiCache (createGalaxyFromNeuralMap
       (createGalaxyFromNeuralMap (NeuralGalaxy_new DEFAULTS (Some ''a'')) []) []) = None"
proof -
  let ?g = "createGalaxyFromNeuralMap (NeuralGalaxy_new DEFAULTS (Some ''a'')) []"
  let ?F = "\<lparr>phiTarget = \<lambda>i. Num 1, rTarget = \<lambda>i. Num 100, aPhi = Num (1/2), aR = Num (1/2)\<rparr>"
  have act: "updateStars_active ?g" by (rule createGalaxy_active)
  have cnt: "length (positions (the (stars ?g))) div 3 = 900"
    using createGalaxy_count [of "NeuralGalaxy_new DEFAULTS (Some ''a'')" "[]"] by auto
  have none: "phiCache ?g = None"
    using createGalaxy_caches [of "NeuralGalaxy_new DEFAULTS (Some ''a'')" "[]"]
    by (simp add: NeuralGalaxy_new_def)
  have z: "ensureCache None 900 ! 7 = Num 0" by (simp add: ensureCache_def)
  from caches_follow_point_count [of ?g ?F "Some [Num 1]" 2 "[]"] act cnt none z
  show ?thesis
    by (simp add: minus_jsnum_def numeral_2_eq_2)
qed

text \<open>
  Claim C9 as stated fails: a structure built from one song is deformed for a frame, then
  the structure is rebuilt from another song of the same length class (50 nodes, hence
  900 points again). After the rebuild the angle cache still holds the values smoothed
  for the first structure, and the next pass keeps them instead of starting from zeros.
\<close>

theorem caches_not_reset_counterexample:
  "phiCache (createGalaxyFromNeuralMap
      ((updateStars_caches
          (createGalaxyFromNeuralMap (NeuralGalaxy_new DEFAULTS (Some ''a''))
             (buildMapData [Num 0.5] 3 ''a''))
          \<lparr>phiTarget = \<lambda>i. Num 1, rTarget = \<lambda>i. Num 100, aPhi = Num (1/2), aR = Num (1/2)\<rparr>)
        \<lparr>songHash := Some ''b''\<rparr>)
      (buildMapData [Num (- 0.25), Num 0.75] 3 ''b'')) = Some (replicate 900 (Num (1/2))) \<and>
   ensureCache (Some (replicate 900 (Num (1/2))))
     (length (positions (the (stars (createGalaxyFromNeuralMap
        ((updateStars_caches
            (createGalaxyFromNeuralMap (NeuralGalaxy_new DEFAULTS (Some ''a''))
               (buildMapData [Num 0.5] 3 ''a''))
            \<lparr>phiTarget = \<lambda>i. Num 1, rTarget = \<lambda>i. Num 100, aPhi = Num (1/2), aR = Num (1/2)\<rparr>)
          \<lparr>songHash := Some ''b''\<rparr>)
        (buildMapData [Num (- 0.25), Num 0.75] 3 ''b''))))) div 3) \<noteq> replicate 900 (Num 0)"
proof -
  let ?g0 = "createGalaxyFromNeuralMap (NeuralGalaxy_new DEFAULTS (Some ''a''))
               (buildMapData [Num 0.5] 3 ''a'')"
  let ?F = "\<lparr>phiTarget = \<lambda>i. Num 1, rTarget = \<lambda>i. Num 100, aPhi = Num (1/2), aR = Num (1/2)\<rparr>"
  let ?g1 = "updateStars_caches ?g0 ?F"
  let ?B = "buildMapData [Num (- 0.25), Num 0.75] 3 ''b''"
  let ?g2 = "createGalaxyFromNeuralMap (?g1\<lparr>songHash := Some ''b''\<rparr>) ?B"
  have n30: "nodeCount_of 3 = 50" by (rule nodeCount_of_le_5) simp_all
  have lenA: "length (buildMapData [Num 0.5] 3 ''a'') = 50"
    by (simp add: length_buildMapData n30)
  have lenB: "length ?B = 50" by (simp add: length_buildMapData n30)
  have none: "phiCache ?g0 = None"
    using createGalaxy_caches [of "NeuralGalaxy_new DEFAULTS (Some ''a'')" "buildMapData [Num 0.5] 3 ''a''"]
    by (simp add: NeuralGalaxy_new_def)
  have g1: "phiCache ?g1 = Some (replicate 900 (Num (1/2)))"
    by (rule steady_frame_phi [OF createGalaxy_active none createGalaxy_50 [OF lenA]])
  have g2: "phiCache ?g2 = Some (replicate 900 (Num (1/2)))"
    using createGalaxy_caches [of "?g1\<lparr>songHash := Some ''b''\<rparr>" ?B] g1 by simp
  have cnt: "length (positions (the (stars ?g2))) div 3 = 900"
    by (rule createGalaxy_50 [OF lenB])
  have "replicate 900 (Num (1/2)) \<noteq> replicate 900 (Num 0)"
    by (simp add: replicate_eq_replicate)
  then have "ensureCache (Some (replicate 900 (Num (1/2)))) 900 \<noteq> replicate 900 (Num 0)"
    by (simp add: ensureCache_def)
  with g2 cnt show ?thesis by simp
qed


text \<open>
  Claim C10. For the empty node list the builder takes the neutral-spiral branch with
  \<open>N = min(4000, max(900, 10 * 0)) = 900\<close>; the committed geometry has 900 points (2700
  coordinates) and every shape tier is 1.
\<close>

theorem empty_list_gives_neutral_spiral:
  "createGalaxyFromNeuralMap this [] =
     createNeutralSpiral this (min 4000 (max 900 (length ([] :: node list) * 10))) \<and>
   min 4000 (max 900 (length ([] :: node list) * 10)) = (900 :: nat) \<and>
   (\<exists>g. stars (createGalaxyFromNeuralMap this []) = Some g \<and>
        length (positions g) = 3 * 900 \<and>
        length (shapeTiers g) = 900 \<and>
        shapeTiers g = replicate 900 (Num 1))"
  using createNeutralSpiral_stars [of this 900]
  by (auto simp: createGalaxy_empty)
section \<open>Empty slices and NaN samples\<close>

lemma plus_NaN_right: "a + NaN = NaN"
  by (cases a) simp_all

lemma maxAbs_NaN: "maxAbs [NaN] = Num 0"
  by (simp add: maxAbs_def js_gt_def)

lemma NeuralMap_maxAbs_NaN: "NeuralMap_maxAbs [NaN] = NaN"
  by (simp add: NeuralMap_maxAbs_def)

text \<open>
  Claim C5 fails on the code. For a buffer whose channel 0 is empty the generator still
  builds 50 nodes (the step is \<open>max(1, 0) = 1\<close>, every slice is empty), and
  \<open>extractDominantFrequency\<close> divides zero crossings by the slice length, \<open>0 / 0\<close>: every
  node's \<open>freq\<close> and height are NaN. The node list is not empty, so the galaxy builder does
  not take the neutral-spiral branch: its shape tiers are all 2 where the neutral spiral's
  are all 1. The same division happens for every node \<open>i \<ge> len\<close> of a buffer with fewer
  samples than nodes, whose slice is empty: node 1 of a one-sample buffer has \<open>freq\<close> NaN.
\<close>

theorem empty_samples_divide_zero_by_zero:
  "length (the (buildMapDataFromAudio
      \<lparr>channelData = [[]], duration = 0, sampleRate = 44100\<rparr> ''0'')) = 50 \<and>
   map freq (the (buildMapDataFromAudio
      \<lparr>channelData = [[]], duration = 0, sampleRate = 44100\<rparr> ''0'')) = replicate 50 NaN \<and>
   map (\<lambda>nd. vy (position nd)) (the (buildMapDataFromAudio
      \<lparr>channelData = [[]], duration = 0, sampleRate = 44100\<rparr> ''0'')) = replicate 50 NaN \<and>
   shapeTiers (the (stars (createGalaxyFromNeuralMap (NeuralGalaxy_new DEFAULTS (Some ''0''))
      (the (buildMapDataFromAudio
         \<lparr>channelData = [[]], duration = 0, sampleRate = 44100\<rparr> ''0''))))) = replicate 900 (Num 2) \<and>
   shapeTiers (the (stars (createNeutralSpiral (NeuralGalaxy_new DEFAULTS (Some ''0'')) 900))) =
     replicate 900 (Num 1) \<and>
   freq (the (buildMapDataFromAudio
      \<lparr>channelData = [[Num 0.5]], duration = 0, sampleRate = 44100\<rparr> ''0'') ! 1) = NaN"
proof -
  let ?b = "\<lparr>channelData = [[]], duration = 0, sampleRate = 44100\<rparr>"
  let ?nodes = "buildMapData [] 0 ''0''"
  have ret: "the (buildMapDataFromAudio ?b ''0'') = ?nodes"
    by (simp add: buildMapDataFromAudio_def getChannelData_def)
  have len: "length ?nodes = 50"
    by (simp add: length_buildMapData nodeCount_of_0)
  have f: "freq (?nodes ! i) = NaN" if "i < 50" for i
    using that nth_buildMapData(2) [of i 0 "[]" "''0''"]
    by (simp add: nodeCount_of_0 slice_of_empty extractDominantFrequency_empty)
  have y: "vy (position (?nodes ! i)) = NaN" if "i < 50" for i
    using that nth_buildMapData_vy [of i 0 "[]" "''0''"]
    by (simp add: nodeCount_of_0 slice_of_empty extractDominantFrequency_empty plus_NaN_right)
  have fs: "map freq ?nodes = replicate 50 NaN"
    by (rule nth_equalityI) (simp_all add: len f)
  have ys: "map (\<lambda>nd. vy (position nd)) ?nodes = replicate 50 NaN"
    by (rule nth_equalityI) (simp_all add: len y)
  have ne: "?nodes \<noteq> []" using len by auto
  have all: "\<forall>nd \<in> set ?nodes. freq nd = NaN"
    using f len by (auto simp: in_set_conv_nth)
  have t: "shapeTiers (the (stars (createGalaxyFromNeuralMap
      (NeuralGalaxy_new DEFAULTS (Some ''0'')) ?nodes))) = replicate 900 (Num 2)"
    using createGalaxy_tiers_NaN [OF ne all, of "NeuralGalaxy_new DEFAULTS (Some ''0'')"]
    by (simp add: len)
  have s: "shapeTiers (the (stars (createNeutralSpiral (NeuralGalaxy_new DEFAULTS (Some ''0'')) 900))) =
      replicate 900 (Num 1)"
    using createNeutralSpiral_stars [of "NeuralGalaxy_new DEFAULTS (Some ''0'')" 900] by auto
  have one: "freq (buildMapData [Num 0.5] 0 ''0'' ! 1) = NaN"
    using nth_buildMapData(2) [of 1 0 "[Num 0.5]" "''0''"]
    by (simp add: nodeCount_of_0 step_of_def slice_of_def subarray_def
        extractDominantFrequency_empty)
  have ret1: "the (buildMapDataFromAudio
      \<lparr>channelData = [[Num 0.5]], duration = 0, sampleRate = 44100\<rparr> ''0'') =
      buildMapData [Num 0.5] 0 ''0''"
    by (simp add: buildMapDataFromAudio_def getChannelData_def)
  show ?thesis
    unfolding ret ret1 using len fs ys t s one by simp
qed

text \<open>
  Claim C2 fails on the code where a sample is NaN: \<open>maxAbs\<close> of MapDNA.js skips it
  (\<open>NaN > m\<close> is false) and \<open>NeuralMap.maxAbs\<close> returns NaN (\<open>Math.max(m, NaN)\<close>). On
  buffers without NaN samples the two modes do derive the same structure
  (\<open>buildNet_refines\<close> above: after \<open>clearNetwork\<close>, \<open>exportNetwork\<close> of \<open>buildNetFromAudio\<close>
  is the node list of \<open>buildMapDataFromAudio\<close> for the seed \<open>audioHash\<close>).
\<close>

theorem maxAbs_copies_differ_on_NaN:
  "amp (the (buildMapDataFromAudio
      \<lparr>channelData = [[NaN]], duration = 0, sampleRate = 44100\<rparr> ''0'') ! 0) = Num 0 \<and>
   amp (exportNetwork (the (buildNetFromAudio
      (clearNetwork \<lparr>nm_nodes = [], nm_connections = [], audioHash = ''0''\<rparr>)
      \<lparr>channelData = [[NaN]], duration = 0, sampleRate = 44100\<rparr>)) ! 0) = NaN"
proof -
  let ?b = "\<lparr>channelData = [[NaN]], duration = 0, sampleRate = 44100\<rparr>"
  let ?nm = "\<lparr>nm_nodes = [], nm_connections = [], audioHash = ''0''\<rparr>"
  have sl: "slice_of [NaN] 1 0 = [NaN]" by (simp add: slice_of_def subarray_def)
  have "amp (buildMapData [NaN] 0 ''0'' ! 0) = maxAbs (slice_of [NaN] 1 0)"
    using nth_buildMapData(1) [of 0 0 "[NaN]" "''0''"] by (simp add: nodeCount_of_0 step_of_def)
  then have a: "amp (buildMapData [NaN] 0 ''0'' ! 0) = Num 0"
    by (simp only: sl maxAbs_NaN)
  let ?h0 = "seededRandom ''0''"
  let ?nodes = "fst (push_meshes [NaN] 50 1 [0..<50] [] ?h0)"
  let ?h1 = "snd (push_meshes [NaN] 50 1 [0..<50] [] ?h0)"
  have net: "nm_nodes (buildNet (clearNetwork ?nm) [NaN] 0) = fst (forEach_outer ?nodes ?nodes 0 ?h1)"
    by (simp add: buildNet_def clearNetwork_def Let_def case_prod_beta nodeCount_of_0 step_of_def)
  have lenn: "length ?nodes = 50" by (simp add: length_push_meshes)
  have upt: "[0..<50] = 0 # [1..<50]" by (simp add: upt_conv_Cons)
  have n0: "?nodes ! 0 = fst (make_mesh [NaN] 50 1 0 ?h0)"
    unfolding upt by (rule push_meshes_Cons_empty)
  have m0: "ud_amp (userData (fst (make_mesh [NaN] 50 1 0 ?h0))) = NaN"
    by (simp add: make_mesh_def Let_def case_prod_beta subarray_def NeuralMap_maxAbs_NaN)
  have "ud_amp (userData (fst (forEach_outer ?nodes ?nodes 0 ?h1) ! 0)) = ud_amp (userData (?nodes ! 0))"
    using forEach_outer_fields [of ?nodes ?nodes 0 ?h1] lenn by simp
  then have "ud_amp (userData (nm_nodes (buildNet (clearNetwork ?nm) [NaN] 0) ! 0)) = NaN"
    by (simp only: net n0 m0)
  moreover have "0 < length (nm_nodes (buildNet (clearNetwork ?nm) [NaN] 0))"
    by (simp add: length_buildNet nodeCount_of_0)
  ultimately have b: "amp (exportNetwork (buildNet (clearNetwork ?nm) [NaN] 0) ! 0) = NaN"
    by (simp add: exportNetwork_def)
  show ?thesis
    using a b by (simp add: buildMapDataFromAudio_def buildNetFromAudio_def getChannelData_def)
qed

section \<open>Zone weights\<close>

lemma sigmoid_unit:
  assumes "\<And>x. 0 \<le> ex x"
  shows "0 \<le> sigmoid ex x \<and> sigmoid ex x \<le> 1"
proof -
  have "1 \<le> 1 + ex (- x)" using assms [of "- x"] by simp
  then have d: "1 \<le> fl (1 + ex (- x))" by (rule fl_ge_1)
  then have q: "0 \<le> 1 / fl (1 + ex (- x))" "1 / fl (1 + ex (- x)) \<le> 1" by simp_all
  from q(1) have "0 \<le> fl (1 / fl (1 + ex (- x)))" by (rule fl_nonneg)
  moreover have "fl (1 / fl (1 + ex (- x))) \<le> real 1" using q by (intro fl_le_nat) simp_all
  ultimately show ?thesis by (simp add: sigmoid_def)
qed


lemma zoneWeights_bound:
  assumes ex: "\<And>x. 0 \<le> ex x"
  shows "case zoneWeights ex y a b k of (wB, wM, wT) \<Rightarrow>
           0 \<le> wB \<and> 0 \<le> wM \<and> 0 \<le> wT \<and> \<bar>wB + wM + wT - 1\<bar> \<le> 1 / 2 ^ 50"
proof -
  define e :: real where "e = 1 / 2 ^ 53"
  have e: "0 < e" "e \<le> 1 / 1000" by (simp_all add: e_def)
  have E2: "\<bar>fl x - x\<bar> \<le> e" if "\<bar>x\<bar> < 2" for x
    using fl_error_2 [OF that] by (simp only: e_def)
  have E4: "\<bar>fl x - x\<bar> \<le> 2 * e" if "\<bar>x\<bar> < 4" for x
    using fl_error_4 [OF that] by (simp add: e_def)
  define s1 where "s1 = sigmoid ex (fl (fl (y - a) / k))"
  define s2 where "s2 = sigmoid ex (fl (fl (y - b) / k))"
  define bW where "bW = fl (1 - s1)"
  define m0 where "m0 = fl (s1 - s2)"
  define mW where "mW = max 0 m0"
  define r1 where "r1 = fl (bW + mW)"
  define S where "S = fl (r1 + s2)"
  define R where "R = bW + mW + s2"
  have s1: "0 \<le> s1" "s1 \<le> 1" using sigmoid_unit [of ex] ex by (simp_all add: s1_def)
  have s2: "0 \<le> s2" "s2 \<le> 1" using sigmoid_unit [of ex] ex by (simp_all add: s2_def)
  have bW: "0 \<le> bW" "bW \<le> 1" "\<bar>bW - (1 - s1)\<bar> \<le> e"
  proof -
    show "0 \<le> bW" unfolding bW_def using s1 by (intro fl_nonneg) simp
    show "bW \<le> 1" unfolding bW_def using s1 fl_le_nat [of "1 - s1" 1] by simp
    show "\<bar>bW - (1 - s1)\<bar> \<le> e" unfolding bW_def using s1 by (intro E2) simp
  qed
  have m0: "m0 \<le> 1" "\<bar>m0 - (s1 - s2)\<bar> \<le> e"
  proof -
    have "s1 - s2 \<le> of_int 1" using s1 s2 by simp
    moreover have "\<bar>s1 - s2\<bar> < 2 ^ 53" using s1 s2 by (simp add: abs_less_iff)
    ultimately have "fl (s1 - s2) \<le> of_int 1" by (rule fl_le_int)
    then show "m0 \<le> 1" by (simp add: m0_def)
    show "\<bar>m0 - (s1 - s2)\<bar> \<le> e"
      unfolding m0_def using s1 s2 by (intro E2) (simp add: abs_less_iff)
  qed
  have mW: "0 \<le> mW" "mW \<le> 1" "s1 - s2 - e \<le> mW"
    unfolding mW_def using m0 by linarith+
  have r1: "0 \<le> r1" "r1 \<le> 2" "\<bar>r1 - (bW + mW)\<bar> \<le> 2 * e"
  proof -
    show "0 \<le> r1" unfolding r1_def using bW mW by (intro fl_nonneg) simp
    show "r1 \<le> 2" unfolding r1_def using bW mW fl_le_nat [of "bW + mW" 2] by simp
    show "\<bar>r1 - (bW + mW)\<bar> \<le> 2 * e" unfolding r1_def using bW mW by (intro E4) simp
  qed
  have S: "\<bar>S - (r1 + s2)\<bar> \<le> 2 * e"
    unfolding S_def using r1 s2 by (intro E4) simp
  have RS: "\<bar>R - S\<bar> \<le> 4 * e"
    unfolding R_def using S r1(3) by linarith
  have Rlo: "1 - 2 * e \<le> R"
    unfolding R_def using bW(3) mW(3) by linarith
  have Slo: "4 / 5 \<le> S" using RS Rlo e by linarith
  then have Spos: "0 < S" by simp
  have "\<bar>fl 0.000001 - 0.000001\<bar> \<le> e" by (rule E2) simp
  moreover have "(0.000001 :: real) \<le> 1 / 1000" by simp
  ultimately have "fl 0.000001 \<le> S" using Slo e by linarith
  then have sumW: "max (fl 0.000001) S = S" by simp
  have quot: "0 \<le> fl (v / S) \<and> \<bar>fl (v / S) - v / S\<bar> \<le> e" if "0 \<le> v" "v \<le> 1" for v
  proof
    have q: "0 \<le> v / S" using that Spos by simp
    then show "0 \<le> fl (v / S)" by (rule fl_nonneg)
    have "v / S \<le> 1 / (4 / 5)" using that Slo by (intro frac_le) simp_all
    also have "\<dots> < 2" by simp
    finally have "v / S < 2" .
    then have "\<bar>v / S\<bar> < 2" using q by linarith
    then show "\<bar>fl (v / S) - v / S\<bar> \<le> e" by (rule E2)
  qed
  have "\<bar>R / S - 1\<bar> = \<bar>R - S\<bar> / S" using Spos by (simp add: field_simps abs_divide)
  also have "\<dots> \<le> (4 * e) / (4 / 5)" using RS Slo e by (intro frac_le) simp_all
  finally have ratio: "\<bar>R / S - 1\<bar> \<le> 5 * e" by simp
  have sum: "bW / S + mW / S + s2 / S = R / S" by (simp add: R_def add_divide_distrib)
  have eq: "zoneWeights ex y a b k = (fl (bW / S), fl (mW / S), fl (s2 / S))"
    unfolding zoneWeights_def logisticWindow_def Let_def
    by (simp only: s1_def [symmetric] s2_def [symmetric] bW_def [symmetric] m0_def [symmetric]
        mW_def [symmetric] r1_def [symmetric] S_def [symmetric] sumW)
  have "\<bar>fl (bW / S) + fl (mW / S) + fl (s2 / S) - 1\<bar> \<le> 8 * e"
    using quot [OF bW(1,2)] quot [OF mW(1,2)] quot [OF s2] ratio sum by linarith
  also have "8 * e = 1 / 2 ^ 50" by (simp add: e_def)
  finally show ?thesis
    using quot [OF bW(1,2)] quot [OF mW(1,2)] quot [OF s2] by (simp add: eq)
qed

lemma clamp_bounds: "lo \<le> hi \<Longrightarrow> lo \<le> clamp v lo hi \<and> clamp v lo hi \<le> hi"
  by (simp add: clamp_def)

text \<open>
  Claim C6, as the code has it. For every normalised height in \<open>[0, 1]\<close> and blend
  parameters within their clamped ranges, and for every \<open>Math.exp\<close> that returns
  non-negative numbers, the three zone weights are non-negative and their sum differs from
  1 by at most \<open>2^-50\<close>, four units in the last place of 1. The same holds for the weights
  that the loop derives for any base height and any configuration. The ranges are those in
  which the rounded operations of the model are the operations of the machine: no divisor
  is zero and nothing overflows.
\<close>

theorem zone_weights_normalised:
  assumes "\<forall>x. 0 \<le> ex x"
    and "0 \<le> y" "y \<le> 1"
    and "0.02 \<le> bassEdgeN" "bassEdgeN \<le> 0.48"
    and "0.52 \<le> trebleEdgeN" "trebleEdgeN \<le> 0.98"
    and "0.015 \<le> k" "k \<le> 0.25"
  shows "(case zoneWeights ex y bassEdgeN trebleEdgeN k of (wB, wM, wT) \<Rightarrow>
            0 \<le> wB \<and> 0 \<le> wM \<and> 0 \<le> wT \<and> \<bar>wB + wM + wT - 1\<bar> \<le> 1 / 2 ^ 50) \<and>
         (case pointWeights ex c yMin yMax by of (wB, wM, wT) \<Rightarrow>
            0 \<le> wB \<and> 0 \<le> wM \<and> 0 \<le> wT \<and> \<bar>wB + wM + wT - 1\<bar> \<le> 1 / 2 ^ 50)"
proof
  from assms(1) have ex: "0 \<le> ex x" for x by simp
  show "case zoneWeights ex y bassEdgeN trebleEdgeN k of (wB, wM, wT) \<Rightarrow>
      0 \<le> wB \<and> 0 \<le> wM \<and> 0 \<le> wT \<and> \<bar>wB + wM + wT - 1\<bar> \<le> 1 / 2 ^ 50"
    using ex by (rule zoneWeights_bound)
  show "case pointWeights ex c yMin yMax by of (wB, wM, wT) \<Rightarrow>
      0 \<le> wB \<and> 0 \<le> wM \<and> 0 \<le> wT \<and> \<bar>wB + wM + wT - 1\<bar> \<le> 1 / 2 ^ 50"
    unfolding pointWeights_def Let_def using ex by (rule zoneWeights_bound)
qed

theorem zone_weights_normalised_witness:
  "(\<forall>x. 0 \<le> fl (exp x)) \<and>
   (0::real) \<le> 0.5 \<and> (0.5::real) \<le> 1 \<and> (0.02::real) \<le> 0.22 \<and> (0.22::real) \<le> 0.48 \<and>
   (0.52::real) \<le> 0.78 \<and> (0.78::real) \<le> 0.98 \<and> (0.015::real) \<le> 0.08 \<and> (0.08::real) \<le> 0.25 \<and>
   0 \<le> fst (zoneWeights (\<lambda>x. fl (exp x)) 0.5 0.22 0.78 0.08) \<and>
   0 \<le> fst (snd (zoneWeights (\<lambda>x. fl (exp x)) 0.5 0.22 0.78 0.08)) \<and>
   0 \<le> snd (snd (zoneWeights (\<lambda>x. fl (exp x)) 0.5 0.22 0.78 0.08)) \<and>
   \<bar>fst (zoneWeights (\<lambda>x. fl (exp x)) 0.5 0.22 0.78 0.08) +
     fst (snd (zoneWeights (\<lambda>x. fl (exp x)) 0.5 0.22 0.78 0.08)) +
     snd (snd (zoneWeights (\<lambda>x. fl (exp x)) 0.5 0.22 0.78 0.08)) - 1\<bar> \<le> 1 / 2 ^ 50"
proof -
  have ex: "\<forall>x. 0 \<le> fl (exp x)" by (simp add: fl_nonneg)
  from zone_weights_normalised [of "\<lambda>x. fl (exp x)" "0.5" "0.22" "0.78" "0.08" DEFAULTS 0 1 0] ex
  show ?thesis by (simp add: case_prod_beta)
qed

text \<open>
  The sum is not exactly 1. The values below are those of a \<open>Math.exp\<close> that returns the
  double nearest to the exponential: \<open>Math.exp(3.5) = 33.11545195869231\<close> and
  \<open>Math.exp(5) = 148.4131591025766\<close>, found by enclosing the exponential between a
  partial sum of its series and the sum with the remainder.
\<close>

lemma exp_taylor_lower:
  fixes x :: real
  assumes "0 \<le> x"
  shows "(\<Sum>m<n. x ^ m / fact m) \<le> exp x"
proof -
  obtain t where "exp x = (\<Sum>m<n. x ^ m / fact m) + (exp t / fact n) * x ^ n"
    using Maclaurin_exp_le [of x n] by blast
  moreover have "0 \<le> (exp t / fact n) * x ^ n" using assms by simp
  ultimately show ?thesis by linarith
qed

lemma exp_taylor_upper:
  fixes x :: real
  assumes "0 \<le> x" and c: "x ^ n / fact n < 1"
  shows "exp x \<le> (\<Sum>m<n. x ^ m / fact m) / (1 - x ^ n / fact n)"
proof -
  define c where "c = x ^ n / fact n"
  define S where "S = (\<Sum>m<n. x ^ m / fact m)"
  obtain t where t: "\<bar>t\<bar> \<le> \<bar>x\<bar>"
    and "exp x = (\<Sum>m<n. x ^ m / fact m) + (exp t / fact n) * x ^ n"
    using Maclaurin_exp_le [of x n] by blast
  then have eq: "exp x = S + exp t * c" by (simp add: S_def c_def)
  have c0: "0 \<le> c" "c < 1" using assms by (simp_all add: c_def)
  have "exp t \<le> exp x" using t assms(1) by simp
  then have "exp t * c \<le> exp x * c" using c0 by (intro mult_right_mono)
  then have "exp x * (1 - c) \<le> S" using eq by (simp add: algebra_simps)
  then have "exp x \<le> S / (1 - c)" using c0 by (simp add: pos_le_divide_eq)
  then show ?thesis by (simp only: S_def c_def)
qed

lemma sum_lessThan_numeral:
  "(\<Sum>m<numeral k. f m) = (\<Sum>m<pred_numeral k. f m) + f (pred_numeral k)" for f :: "nat \<Rightarrow> real"
  by (simp add: numeral_eq_Suc)


lemma fl_exp_7_2: "fl (exp (7 / 2)) = 4660585534417883 / 140737488355328"
proof -
  have "9321171068835765 / 281474976710656 < (\<Sum>m<40. (7 / 2 :: real) ^ m / fact m)"
    by (simp add: sum_lessThan_numeral fact_numeral power_divide)
  also have "\<dots> \<le> exp (7 / 2)" by (rule exp_taylor_lower) simp
  finally have lo: "9321171068835765 / 281474976710656 < exp (7 / 2 :: real)" .
  have "exp (7 / 2 :: real) \<le>
      (\<Sum>m<40. (7 / 2) ^ m / fact m) / (1 - (7 / 2) ^ 40 / fact 40)"
    by (rule exp_taylor_upper) (simp_all add: fact_numeral power_divide)
  also have "\<dots> < 9321171068835767 / 281474976710656"
    by (simp add: sum_lessThan_numeral fact_numeral power_divide)
  finally have hi: "exp (7 / 2 :: real) < 9321171068835767 / 281474976710656" .
  show ?thesis
    by (rule fl_evalI [where k = 5 and N = 4660585534417883]) (use lo hi in simp_all)
qed

lemma fl_exp_5: "fl (exp 5) = 5221823812744079 / 35184372088832"
proof -
  have "10443647625488157 / 70368744177664 < (\<Sum>m<50. (5 :: real) ^ m / fact m)"
    by (simp add: sum_lessThan_numeral fact_numeral)
  also have "\<dots> \<le> exp 5" by (rule exp_taylor_lower) simp
  finally have lo: "10443647625488157 / 70368744177664 < exp (5 :: real)" .
  have "exp (5 :: real) \<le> (\<Sum>m<50. 5 ^ m / fact m) / (1 - 5 ^ 50 / fact 50)"
    by (rule exp_taylor_upper) (simp_all add: fact_numeral)
  also have "\<dots> < 10443647625488159 / 70368744177664"
    by (simp add: sum_lessThan_numeral fact_numeral)
  finally have hi: "exp (5 :: real) < 10443647625488159 / 70368744177664" .
  show ?thesis
    by (rule fl_evalI [where k = 7 and N = 5221823812744079]) (use lo hi in simp_all)
qed

text \<open>
  For the blend parameters \<open>bassEdge = 0.4375\<close>, \<open>trebleEdge = 0.625\<close>, \<open>softness = 0.125\<close>
  (doubles within the clamped ranges) and a point of normalised height 0, the raw weights
  sum to \<open>1 - 2^-53\<close> in double arithmetic and the three normalised weights to
  \<open>1 + 83 / 2^60\<close>; added in double arithmetic they give \<open>1 + 2^-52\<close>.
\<close>

theorem zone_weights_sum_counterexample:
  "zoneWeights (\<lambda>x. fl (exp x)) 0 (7 / 16) (5 / 8) (1 / 8) =
     (2185794537940645 / 2251799813685248, 6519592355875249 / 288230376151711744,
      7716331757735823 / 1152921504606846976) \<and>
   (2185794537940645 / 2251799813685248 + 6519592355875249 / 288230376151711744 +
      7716331757735823 / 1152921504606846976 :: real) = 1 + 83 / 1152921504606846976 \<and>
   fl (fl (2185794537940645 / 2251799813685248 + 6519592355875249 / 288230376151711744) +
      7716331757735823 / 1152921504606846976) = 1 + 1 / 4503599627370496"
proof -
  have ya: "fl (- (7 / 16)) = - (7 / 16)"
    by (rule fl_evalR [where k = "- 2"]) (simp_all add: round_even_def)
  have xa: "fl (- (7 / 2)) = - (7 / 2)"
    by (rule fl_evalR [where k = "1"]) (simp_all add: round_even_def)
  have yb: "fl (- (5 / 8)) = - (5 / 8)"
    by (rule fl_evalR [where k = "- 1"]) (simp_all add: round_even_def)
  have xb: "fl (- 5) = - 5"
    by (rule fl_evalR [where k = "2"]) (simp_all add: round_even_def)
  have t1: "fl (4801323022773211 / 140737488355328) = 4801323022773211 / 140737488355328"
    by (rule fl_evalR [where k = "5"]) (simp_all add: round_even_def)
  have s1: "fl (140737488355328 / 4801323022773211) = 2112168823827301 / 72057594037927936"
    by (rule fl_evalR [where k = "- 6"]) (simp_all add: round_even_def)
  have t2: "fl (5257008184832911 / 35184372088832) = 5257008184832911 / 35184372088832"
    by (rule fl_evalR [where k = "7"]) (simp_all add: round_even_def)
  have s2: "fl (35184372088832 / 5257008184832911) = 3858165878867911 / 576460752303423488"
    by (rule fl_evalR [where k = "- 8"]) (simp_all add: round_even_def)
  have bW: "fl (69945425214100635 / 72057594037927936) = 8743178151762579 / 9007199254740992"
    by (rule fl_evalR [where k = "- 1"]) (simp_all add: round_even_def)
  have m0: "fl (13039184711750497 / 576460752303423488) = 407474522242203 / 18014398509481984"
    by (rule fl_evalR [where k = "- 6"]) (simp_all add: round_even_def)
  have r1: "fl (17893830825767361 / 18014398509481984) = 279591106652615 / 281474976710656"
    by (rule fl_evalR [where k = "- 1"]) (simp_all add: round_even_def)
  have S: "fl (576460752303423431 / 576460752303423488) = 9007199254740991 / 9007199254740992"
    by (rule fl_evalR [where k = "- 1"]) (simp_all add: round_even_def)
  have lit: "fl (1 / 1000000) = 4722366482869645 / 4722366482869645213696"
    by (rule fl_evalR [where k = "- 20"]) (simp_all add: round_even_def)
  have wB: "fl (8743178151762579 / 9007199254740991) = 2185794537940645 / 2251799813685248"
    by (rule fl_evalR [where k = "- 1"]) (simp_all add: round_even_def)
  have wM: "fl (407474522242203 / 18014398509481982) = 6519592355875249 / 288230376151711744"
    by (rule fl_evalR [where k = "- 6"]) (simp_all add: round_even_def)
  have wT: "fl (3858165878867911 / 576460752303423424) = 7716331757735823 / 1152921504606846976"
    by (rule fl_evalR [where k = "- 8"]) (simp_all add: round_even_def)
  have d1: "fl (286301293212277809 / 288230376151711744) = 4473457706441841 / 4503599627370496"
    by (rule fl_evalR [where k = "- 1"]) (simp_all add: round_even_def)
  have d2: "fl (1152921504606847119 / 1152921504606846976) = 4503599627370497 / 4503599627370496"
    by (rule fl_evalR [where k = "0"]) (simp_all add: round_even_def)
  have z: "zoneWeights (\<lambda>x. fl (exp x)) 0 (7 / 16) (5 / 8) (1 / 8) =
     (2185794537940645 / 2251799813685248, 6519592355875249 / 288230376151711744,
      7716331757735823 / 1152921504606846976)"
    by (simp add: zoneWeights_def logisticWindow_def sigmoid_def Let_def
        ya xa yb xb fl_exp_7_2 fl_exp_5 t1 s1 t2 s2 bW m0 r1 S lit wB wM wT)
  show ?thesis by (simp add: z d1 d2)
qed

section \<open>Arm lanes\<close>

lemma wrapForward_ge: "theta \<le> wrapForward spiralBase theta"
proof (induction spiralBase theta rule: wrapForward.induct)
  case (1 spiralBase theta)
  then show ?case by (subst wrapForward.simps) simp
qed

lemma wrapForward_ahead: "theta \<le> spiralBase \<Longrightarrow> wrapForward spiralBase theta = spiralBase"
  by (subst wrapForward.simps) simp

lemma wrapForward_turns:
  "\<exists>n::nat. wrapForward spiralBase theta = spiralBase + real n * (pi * 2)"
proof (induction spiralBase theta rule: wrapForward.induct)
  case (1 spiralBase theta)
  show ?case
  proof (cases "spiralBase < theta")
    case True
    with 1 obtain n :: nat where
      "wrapForward (spiralBase + pi * 2) theta = spiralBase + pi * 2 + real n * (pi * 2)"
      by blast
    then have "wrapForward spiralBase theta = spiralBase + real (Suc n) * (pi * 2)"
      using True by (subst wrapForward.simps) (simp add: algebra_simps)
    then show ?thesis by blast
  next
    case False
    then have "wrapForward spiralBase theta = spiralBase + real (0::nat) * (pi * 2)"
      by (subst wrapForward.simps) simp
    then show ?thesis by blast
  qed
qed

lemma wrapForward_behind:
  "spiralBase < theta \<Longrightarrow> wrapForward spiralBase theta < theta + pi * 2"
proof (induction spiralBase theta rule: wrapForward.induct)
  case (1 spiralBase theta)
  show ?case
  proof (cases "spiralBase + pi * 2 < theta")
    case True
    with 1 show ?thesis by (subst wrapForward.simps) simp
  next
    case False
    then have "wrapForward (spiralBase + pi * 2) theta = spiralBase + pi * 2"
      by (simp add: wrapForward_ahead)
    with 1 show ?thesis by (subst wrapForward.simps) simp
  qed
qed

lemma lerp_forward: "theta \<le> target \<Longrightarrow> 0 \<le> a \<Longrightarrow> theta \<le> lerp theta target a"
proof -
  assume "theta \<le> target" "0 \<le> a"
  then have "0 \<le> a * (target - theta)" by simp
  moreover have "lerp theta target a = theta + a * (target - theta)"
    by (simp add: lerp_def algebra_simps)
  ultimately show ?thesis by simp
qed

lemma armAssert_range:
  "0 \<le> armAssert c midEnergyGlobal sensNorm intensity wM \<and>
   armAssert c midEnergyGlobal sensNorm intensity wM \<le> 1"
  by (simp add: armAssert_def Let_def clamp_def)

text \<open>
  What holds of the lane pull: the wrapped lane angle is not behind \<open>theta\<close>, the pull
  (whose strength is clamped to \<open>[0, 1]\<close>) never decreases \<open>theta\<close>, the wrapped angle is the
  lane angle plus a whole number of turns, and it is less than one turn ahead whenever the
  lane angle started behind \<open>theta\<close>.
\<close>

lemma lane_pull_forward:
  "theta \<le> wrapForward spiralBase theta \<and>
   theta \<le> lanePull theta spiralBase (armAssert c midEnergyGlobal sensNorm intensity wM) \<and>
   (\<exists>n::nat. wrapForward spiralBase theta = spiralBase + real n * (pi * 2)) \<and>
   (spiralBase < theta \<longrightarrow> wrapForward spiralBase theta < theta + pi * 2)"
  using wrapForward_ge [of theta spiralBase] wrapForward_turns [of spiralBase theta]
    wrapForward_behind [of spiralBase theta] armAssert_range [of c midEnergyGlobal sensNorm intensity wM]
  by (simp add: lanePull_def lerp_forward)

text \<open>
  Claim C7 fails on the code in its first part: the loop only ever adds turns, so a lane
  angle that starts more than one turn ahead of \<open>theta\<close> stays there and is not the nearest
  equivalent angle ahead. With five arms, point 4 at base radius 100 has the lane angle
  \<open>8 * pi / 5 + 1.2\<close>; for \<open>theta = - 3\<close> the loop leaves it unchanged although one turn
  less is still ahead of \<open>theta\<close>.
\<close>

theorem lane_target_not_nearest:
  "wrapForward (laneAngle DEFAULTS 5 4 100) (- 3) = laneAngle DEFAULTS 5 4 100 \<and>
   - 3 \<le> laneAngle DEFAULTS 5 4 100 - pi * 2 \<and>
   laneAngle DEFAULTS 5 4 100 - pi * 2 < laneAngle DEFAULTS 5 4 100"
proof -
  have la: "laneAngle DEFAULTS 5 4 100 = 8 * pi / 5 + 6 / 5"
    by (simp add: laneAngle_def DEFAULTS_def)
  have ahead: "- 3 \<le> laneAngle DEFAULTS 5 4 100"
    unfolding la using pi_gt_zero by linarith
  have nearer: "- 3 \<le> laneAngle DEFAULTS 5 4 100 - pi * 2"
    unfolding la using pi_less_4 by linarith
  have "laneAngle DEFAULTS 5 4 100 - pi * 2 < laneAngle DEFAULTS 5 4 100"
    using pi_gt_zero by linarith
  with wrapForward_ahead [OF ahead] nearer show ?thesis by simp
qed
section \<open>Bounds and decay of the audio features\<close>

text \<open>The edge between the upper mids and the treble for a snapshot of 90 bins: the exact
  product \<open>90 * 0.7\<close> is 63, the double product is below 63.\<close>

lemma band_edge_rounded:
  "\<lfloor>fl (real 90 * fl (highMidEnd (audio DEFAULTS)))\<rfloor> = 62 \<and>
   \<lfloor>real 90 * highMidEnd (audio DEFAULTS)\<rfloor> = 63"
proof -
  have h: "fl (7 / 10) = 3152519739159347 / 4503599627370496"
    by (rule fl_evalR [where k = "- 1"]) (simp_all add: round_even_def)
  have e: "fl (141863388262170615 / 2251799813685248) = 8866461766385663 / 140737488355328"
    by (rule fl_evalR [where k = "5"]) (simp_all add: round_even_def)
  show ?thesis by (simp add: DEFAULTS_def h e)
qed

lemma band_mean_nonneg: "0 \<le> band_mean s n"
  by (simp add: band_mean_def)

lemma band_mean_zero: "band_mean 0 n = 0"
  by (simp add: band_mean_def)

lemma computeBands_nonneg:
  "0 \<le> bass (computeBands c d) \<and> 0 \<le> lowMid (computeBands c d) \<and>
   0 \<le> highMid (computeBands c d) \<and> 0 \<le> treble (computeBands c d)"
  by (simp add: computeBands_def Let_def band_mean_nonneg)

lemma bands_loop_zero:
  assumes "\<forall>v \<in> set vs. v = 0"
    and "sumBass acc = 0 \<and> sumLowMid acc = 0 \<and> sumHighMid acc = 0 \<and> sumTreble acc = 0"
  shows "sumBass (bands_loop bE lE hE i vs acc) = 0 \<and>
         sumLowMid (bands_loop bE lE hE i vs acc) = 0 \<and>
         sumHighMid (bands_loop bE lE hE i vs acc) = 0 \<and>
         sumTreble (bands_loop bE lE hE i vs acc) = 0"
  using assms
proof (induction vs arbitrary: i acc)
  case Nil
  then show ?case by simp
next
  case (Cons v vs)
  then have v: "v = 0" and vs: "\<forall>v \<in> set vs. v = 0" by simp_all
  show ?case
    using Cons.prems(2) v by (simp add: Cons.IH [OF vs])
qed

lemma computeBands_zero:
  assumes "\<forall>v \<in> set d. v = 0"
  shows "computeBands c d = \<lparr>bass = 0, lowMid = 0, highMid = 0, treble = 0\<rparr>"
proof (cases "length d = 0")
  case True
  then show ?thesis by (simp add: computeBands_def)
next
  case False
  let ?acc = "\<lparr>sumBass = 0, nBass = 0, sumLowMid = 0, nLowMid = 0,
               sumHighMid = 0, nHighMid = 0, sumTreble = 0, nTreble = 0\<rparr>"
  have "sumBass ?acc = 0 \<and> sumLowMid ?acc = 0 \<and> sumHighMid ?acc = 0 \<and> sumTreble ?acc = 0"
    by simp
  from bands_loop_zero [OF assms this] False show ?thesis
    by (simp add: computeBands_def Let_def band_mean_zero)
qed

lemma clamp_id: "lo \<le> v \<Longrightarrow> v \<le> hi \<Longrightarrow> clamp v lo hi = v"
  by (simp add: clamp_def)

lemma sample_midPulse:
  "midPulse (snd (sample c s d st)) =
     clamp (midPulse st * midPulseHold (audio c)
            + max 0 ((lowMid (computeBands c d) - prevLowMid st) * 9.0) * midPulseIn (audio c)) 0 1.5"
  by (simp add: sample_def Let_def)

lemma sample_bassHit:
  "bassHit (snd (sample c s d st)) =
     clamp (bassHit st * bassHitDecay (impact c)
            + max 0 (bass (computeBands c d) - prevBass st) * (10.0 + s * 20.0)
              * bassHitAttack (impact c)) 0 1.25"
  by (simp add: sample_def Let_def)

lemma sample_prev:
  "prevLowMid (snd (sample c s d st)) = lowMid (computeBands c d) \<and>
   prevBass (snd (sample c s d st)) = bass (computeBands c d)"
  by (simp add: sample_def Let_def)

lemma sample_out:
  "out_bassHit (fst (sample c s d st)) = bassHit (snd (sample c s d st)) \<and>
   out_bassEnv (fst (sample c s d st)) = clamp (bassEnv (snd (sample c s d st))) 0 1 \<and>
   out_trebleEnv (fst (sample c s d st)) = clamp (trebleEnv (snd (sample c s d st))) 0 1 \<and>
   pulseScaled (fst (sample c s d st)) =
     clamp (midPulse (snd (sample c s d st)) * (0.65 + s * 1.35)) 0 1.0"
  by (simp add: sample_def Let_def)


lemma features_ok_new: "features_ok AudioFeatures_new"
  by (simp add: features_ok_def AudioFeatures_new_def)

lemma features_ok_sample: "features_ok (snd (sample c s d st))"
  using computeBands_nonneg [of c d]
    clamp_bounds [of 0 "1.5" "midPulse st * midPulseHold (audio c)
            + max 0 ((lowMid (computeBands c d) - prevLowMid st) * 9.0) * midPulseIn (audio c)"]
    clamp_bounds [of 0 "1.25" "bassHit st * bassHitDecay (impact c)
            + max 0 (bass (computeBands c d) - prevBass st) * (10.0 + s * 20.0)
              * bassHitAttack (impact c)"]
  by (simp add: features_ok_def sample_midPulse sample_bassHit sample_prev)

lemma features_ok_run: "features_ok st \<Longrightarrow> features_ok (run_frames c frames st)"
proof (induction frames arbitrary: st)
  case Nil
  then show ?case by simp
next
  case (Cons fr frames)
  obtain s d where fr: "fr = (s, d)" by (cases fr)
  show ?case
    unfolding fr by (simp add: Cons.IH [OF features_ok_sample])
qed

lemma sample_zero_step:
  assumes ok: "features_ok st" and z: "\<forall>v \<in> set d. v = 0"
    and h: "0 \<le> midPulseHold (audio c)" "midPulseHold (audio c) \<le> 1"
    and dc: "0 \<le> bassHitDecay (impact c)" "bassHitDecay (impact c) \<le> 1"
  shows "midPulse (snd (sample c s d st)) = midPulse st * midPulseHold (audio c)"
    and "bassHit (snd (sample c s d st)) = bassHit st * bassHitDecay (impact c)"
proof -
  have b: "computeBands c d = \<lparr>bass = 0, lowMid = 0, highMid = 0, treble = 0\<rparr>"
    by (rule computeBands_zero [OF z])
  have m0: "0 \<le> midPulse st" and m1: "midPulse st \<le> 1.5"
    and b0: "0 \<le> bassHit st" and b1: "bassHit st \<le> 1.25"
    and pl: "0 \<le> prevLowMid st" and pb: "0 \<le> prevBass st"
    using ok by (simp_all add: features_ok_def)
  have raw: "max 0 ((0 - prevLowMid st) * 9.0) = 0" using pl by simp
  have hit: "max 0 (0 - prevBass st) = 0" using pb by simp
  have "midPulse st * midPulseHold (audio c) \<le> midPulse st * 1"
    using h(2) m0 by (rule mult_left_mono)
  then have mu: "midPulse st * midPulseHold (audio c) \<le> 1.5" using m1 by simp
  have ml: "0 \<le> midPulse st * midPulseHold (audio c)" using m0 h(1) by simp
  have "bassHit st * bassHitDecay (impact c) \<le> bassHit st * 1"
    using dc(2) b0 by (rule mult_left_mono)
  then have bu: "bassHit st * bassHitDecay (impact c) \<le> 1.25" using b1 by simp
  have bl: "0 \<le> bassHit st * bassHitDecay (impact c)" using b0 dc(1) by simp
  show "midPulse (snd (sample c s d st)) = midPulse st * midPulseHold (audio c)"
    unfolding sample_midPulse b using raw clamp_id [OF ml mu] by simp
  show "bassHit (snd (sample c s d st)) = bassHit st * bassHitDecay (impact c)"
    unfolding sample_bassHit b using hit clamp_id [OF bl bu] by simp
qed

lemma run_zero_frames:
  assumes ok: "features_ok st" and z: "\<forall>fr \<in> set frames. \<forall>v \<in> set (snd fr). v = 0"
    and h: "0 \<le> midPulseHold (audio c)" "midPulseHold (audio c) \<le> 1"
    and dc: "0 \<le> bassHitDecay (impact c)" "bassHitDecay (impact c) \<le> 1"
  shows "midPulse (run_frames c frames st) = midPulse st * midPulseHold (audio c) ^ length frames \<and>
         bassHit (run_frames c frames st) = bassHit st * bassHitDecay (impact c) ^ length frames"
  using ok z
proof (induction frames arbitrary: st)
  case Nil
  then show ?case by simp
next
  case (Cons fr frames)
  obtain s d where fr: "fr = (s, d)" by (cases fr)
  have zd: "\<forall>v \<in> set d. v = 0" using Cons.prems(2) fr by simp
  have zr: "\<forall>fr \<in> set frames. \<forall>v \<in> set (snd fr). v = 0" using Cons.prems(2) by simp
  note step = sample_zero_step [OF Cons.prems(1) zd h dc, of s]
  note IH = Cons.IH [OF features_ok_sample zr, of c s d st]
  show ?case
    unfolding fr using IH by (simp add: step mult.assoc)
qed


lemma uBassHit_range: "0 \<le> uBassHit hit s \<and> uBassHit hit s \<le> 1.35"
  using clamp_bounds [of 0 "1.35" "hit * (0.85 + s * 0.55)"] by (simp add: uBassHit_def)

lemma decay_to_zero:
  fixes m h :: real
  assumes "0 \<le> h" "h < 1"
  shows "(\<lambda>n. m * h ^ n) \<longlonglongrightarrow> 0"
proof -
  have "(\<lambda>n. h ^ n) \<longlonglongrightarrow> 0" using assms by (rule LIMSEQ_realpow_zero)
  then have "(\<lambda>n. m * h ^ n) \<longlonglongrightarrow> m * 0" by (rule tendsto_mult_left)
  then show ?thesis by simp
qed

text \<open>
  Claim C8. Start from the zero state and run any sequence of frames (any sensitivities,
  any byte snapshots). After the next \<open>sample\<close> call with a sensitivity in \<open>[0, 1]\<close> the
  returned \<open>bassEnv\<close> and \<open>trebleEnv\<close> lie in \<open>[0, 1]\<close>, \<open>midPulse\<close> lies in \<open>[0, 1.5]\<close> (and the
  returned \<open>pulseScaled\<close> in \<open>[0, 1]\<close>), and \<open>bassHit\<close> lies in \<open>[0, 1.25]\<close>, hence within
  \<open>[0, 1.35]\<close>, the range of the value handed to the shader. Over any further run of
  all-zero snapshots, with hold and decay constants in \<open>[0, 1)\<close> as in \<open>DEFAULTS\<close>, the
  pulse and the hit are multiplied by the constant at each frame: they stay non-negative
  and tend to 0.
\<close>

theorem envelopes_bounded:
  fixes c :: Config and frames :: "(real \<times> 8 word list) list" and zf :: "nat \<Rightarrow> real \<times> 8 word list"
    and st st' :: AudioFeatures and F :: FeatureFrame
    and sensNorm :: real and dataArray :: "8 word list"
  defines "st \<equiv> run_frames c frames AudioFeatures_new"
  defines "F \<equiv> fst (sample c sensNorm dataArray st)"
  defines "st' \<equiv> snd (sample c sensNorm dataArray st)"
  assumes sens: "0 \<le> sensNorm" "sensNorm \<le> 1"
    and hold: "0 \<le> midPulseHold (audio c)" "midPulseHold (audio c) < 1"
    and decay: "0 \<le> bassHitDecay (impact c)" "bassHitDecay (impact c) < 1"
    and zero: "\<forall>n. snd (zf n) = replicate (length (snd (zf n))) 0"
  shows "0 \<le> out_bassEnv F \<and> out_bassEnv F \<le> 1 \<and>
         0 \<le> out_trebleEnv F \<and> out_trebleEnv F \<le> 1 \<and>
         0 \<le> midPulse st' \<and> midPulse st' \<le> 1.5 \<and>
         0 \<le> pulseScaled F \<and> pulseScaled F \<le> 1 \<and>
         0 \<le> out_bassHit F \<and> out_bassHit F \<le> 1.25 \<and> out_bassHit F \<le> 1.35 \<and>
         0 \<le> uBassHit (out_bassHit F) sensNorm \<and> uBassHit (out_bassHit F) sensNorm \<le> 1.35 \<and>
         (\<forall>n. midPulse (run_frames c (map zf [0..<n]) st') = midPulse st' * midPulseHold (audio c) ^ n \<and>
              bassHit (run_frames c (map zf [0..<n]) st') = bassHit st' * bassHitDecay (impact c) ^ n \<and>
              0 \<le> midPulse (run_frames c (map zf [0..<n]) st') \<and>
              0 \<le> bassHit (run_frames c (map zf [0..<n]) st')) \<and>
         (\<lambda>n. midPulse (run_frames c (map zf [0..<n]) st')) \<longlonglongrightarrow> 0 \<and>
         (\<lambda>n. bassHit (run_frames c (map zf [0..<n]) st')) \<longlonglongrightarrow> 0"
proof -
  have ok': "features_ok st'" unfolding st'_def by (rule features_ok_sample)
  then have m: "0 \<le> midPulse st'" "midPulse st' \<le> 1.5" and b: "0 \<le> bassHit st'" "bassHit st' \<le> 1.25"
    by (simp_all add: features_ok_def)
  have out: "out_bassHit F = bassHit st'"
    "out_bassEnv F = clamp (bassEnv st') 0 1" "out_trebleEnv F = clamp (trebleEnv st') 0 1"
    "pulseScaled F = clamp (midPulse st' * (0.65 + sensNorm * 1.35)) 0 1.0"
    unfolding F_def st'_def using sample_out [of c sensNorm dataArray st] by simp_all
  have e1: "0 \<le> out_bassEnv F \<and> out_bassEnv F \<le> 1"
    unfolding out using clamp_bounds [of 0 1 "bassEnv st'"] by simp
  have e2: "0 \<le> out_trebleEnv F \<and> out_trebleEnv F \<le> 1"
    unfolding out using clamp_bounds [of 0 1 "trebleEnv st'"] by simp
  have e3: "0 \<le> pulseScaled F \<and> pulseScaled F \<le> 1"
    unfolding out using clamp_bounds [of 0 1 "midPulse st' * (0.65 + sensNorm * 1.35)"] by simp
  have e4: "0 \<le> out_bassHit F \<and> out_bassHit F \<le> 1.25 \<and> out_bassHit F \<le> 1.35"
    unfolding out using b by simp
  have z: "\<forall>fr \<in> set (map zf [0..<n]). \<forall>v \<in> set (snd fr). v = 0" for n
  proof (intro ballI)
    fix fr v assume "fr \<in> set (map zf [0..<n])" and v: "v \<in> set (snd fr)"
    then obtain k where "fr = zf k" by auto
    with zero have "snd fr = replicate (length (snd fr)) 0" by simp
    with v show "v = 0" by (metis in_set_replicate)
  qed
  have h1: "midPulseHold (audio c) \<le> 1" and d1: "bassHitDecay (impact c) \<le> 1"
    using hold(2) decay(2) by simp_all
  have run: "midPulse (run_frames c (map zf [0..<n]) st') = midPulse st' * midPulseHold (audio c) ^ n \<and>
        bassHit (run_frames c (map zf [0..<n]) st') = bassHit st' * bassHitDecay (impact c) ^ n" for n
    using run_zero_frames [OF ok' z hold(1) h1 decay(1) d1, of n] by simp
  have nonneg: "0 \<le> midPulse (run_frames c (map zf [0..<n]) st') \<and>
        0 \<le> bassHit (run_frames c (map zf [0..<n]) st')" for n
    using features_ok_run [OF ok', of c "map zf [0..<n]"] by (simp add: features_ok_def)
  have l1: "(\<lambda>n. midPulse (run_frames c (map zf [0..<n]) st')) \<longlonglongrightarrow> 0"
    using decay_to_zero [OF hold, of "midPulse st'"] by (simp add: run)
  have l2: "(\<lambda>n. bassHit (run_frames c (map zf [0..<n]) st')) \<longlonglongrightarrow> 0"
    using decay_to_zero [OF decay, of "bassHit st'"] by (simp add: run)
  show ?thesis
    using e1 e2 e3 e4 m uBassHit_range [of "out_bassHit F" sensNorm] run nonneg l1 l2
    by blast
qed


theorem envelopes_bounded_witness:
  "(0::real) \<le> 0.5 \<and> (0.5::real) \<le> 1 \<and>
   0 \<le> midPulseHold (audio DEFAULTS) \<and> midPulseHold (audio DEFAULTS) < 1 \<and>
   0 \<le> bassHitDecay (impact DEFAULTS) \<and> bassHitDecay (impact DEFAULTS) < 1 \<and>
   snd (0.5 :: real, [0, 0, 0, 0 :: 8 word]) = replicate (length (snd (0.5 :: real, [0, 0, 0, 0 :: 8 word]))) 0 \<and>
   out_bassEnv (fst (sample DEFAULTS 0.5 [0, 255]
      (run_frames DEFAULTS [(0.5, [255, 128, 0, 7])] AudioFeatures_new))) \<le> 1 \<and>
   midPulse (snd (sample DEFAULTS 0.5 [0, 255]
      (run_frames DEFAULTS [(0.5, [255, 128, 0, 7])] AudioFeatures_new))) \<le> 1.5 \<and>
   0 \<le> out_bassHit (fst (sample DEFAULTS 0.5 [0, 255]
      (run_frames DEFAULTS [(0.5, [255, 128, 0, 7])] AudioFeatures_new))) \<and>
   midPulse (run_frames DEFAULTS (map (\<lambda>n. (0.5, [0, 0, 0, 0])) [0..<3])
      (snd (sample DEFAULTS 0.5 [0, 255]
         (run_frames DEFAULTS [(0.5, [255, 128, 0, 7])] AudioFeatures_new)))) =
     midPulse (snd (sample DEFAULTS 0.5 [0, 255]
         (run_frames DEFAULTS [(0.5, [255, 128, 0, 7])] AudioFeatures_new)))
       * midPulseHold (audio DEFAULTS) ^ 3"
proof -
  have s: "(0::real) \<le> 0.5" "(0.5::real) \<le> 1" by simp_all
  have h: "0 \<le> midPulseHold (audio DEFAULTS)" "midPulseHold (audio DEFAULTS) < 1"
    by (simp_all add: DEFAULTS_def)
  have d: "0 \<le> bassHitDecay (impact DEFAULTS)" "bassHitDecay (impact DEFAULTS) < 1"
    by (simp_all add: DEFAULTS_def)
  have z: "\<forall>n::nat. snd (0.5 :: real, [0, 0, 0, 0 :: 8 word]) =
      replicate (length (snd (0.5 :: real, [0, 0, 0, 0 :: 8 word]))) 0"
    by (simp add: numeral_eq_Suc)
  note t = envelopes_bounded [where frames = "[(0.5, [255, 128, 0, 7])]"
      and dataArray = "[0, 255]", OF s h d z]
  from t have b: "out_bassEnv (fst (sample DEFAULTS 0.5 [0, 255]
      (run_frames DEFAULTS [(0.5, [255, 128, 0, 7])] AudioFeatures_new))) \<le> 1"
    and m: "midPulse (snd (sample DEFAULTS 0.5 [0, 255]
      (run_frames DEFAULTS [(0.5, [255, 128, 0, 7])] AudioFeatures_new))) \<le> 1.5"
    and o: "0 \<le> out_bassHit (fst (sample DEFAULTS 0.5 [0, 255]
      (run_frames DEFAULTS [(0.5, [255, 128, 0, 7])] AudioFeatures_new)))"
    by blast+
  from t have "\<forall>n. midPulse (run_frames DEFAULTS (map (\<lambda>n. (0.5, [0, 0, 0, 0])) [0..<n])
      (snd (sample DEFAULTS 0.5 [0, 255]
         (run_frames DEFAULTS [(0.5, [255, 128, 0, 7])] AudioFeatures_new)))) =
     midPulse (snd (sample DEFAULTS 0.5 [0, 255]
         (run_frames DEFAULTS [(0.5, [255, 128, 0, 7])] AudioFeatures_new)))
       * midPulseHold (audio DEFAULTS) ^ n"
    by blast
  then have r: "midPulse (run_frames DEFAULTS (map (\<lambda>n. (0.5, [0, 0, 0, 0])) [0..<3])
      (snd (sample DEFAULTS 0.5 [0, 255]
         (run_frames DEFAULTS [(0.5, [255, 128, 0, 7])] AudioFeatures_new)))) =
     midPulse (snd (sample DEFAULTS 0.5 [0, 255]
         (run_frames DEFAULTS [(0.5, [255, 128, 0, 7])] AudioFeatures_new)))
       * midPulseHold (audio DEFAULTS) ^ 3"
    by (rule spec)
  show ?thesis
    using s h d z b m o r by blast
qed

end
